theory Spec2Isabelle
  imports
    Complex_Main
    "HOL-Library.Word"
    "HOL-Library.Log_Nat"
    "HOL-Library.Multiset"
    "HOL-Library.Char_ord"
    "HOL-Library.List_Lexorder"
begin

section \<open>JavaScript numbers\<close>

text \<open>
  A JavaScript number is an IEEE 754 binary64 value. The numbers that occur in
  \<open>generateHeatmapImage\<close> are finite and far inside the normal range, so a number is
  modelled by the rational it denotes, and every arithmetic operation rounds its exact
  result to the nearest value with a 53-bit significand, ties to even.
\<close>

definition rne :: "rat \<Rightarrow> int" where
  \<comment> \<open>round to the nearest integer, ties to the even one\<close>
  "rne y = (let f = \<lfloor>y\<rfloor>; d = y - of_int f
            in if d < 1/2 then f else if 1/2 < d then f + 1
               else if even f then f else f + 1)"

definition expo :: "rat \<Rightarrow> int" where
  \<comment> \<open>the binary exponent \<open>e\<close> of a non-zero number: \<open>2^e \<le> |x| < 2^(e+1)\<close>\<close>
  "expo x = (let (p, q) = quotient_of \<bar>x\<bar>; e = bitlen p - bitlen q
             in if 2 powi e \<le> \<bar>x\<bar> then e else e - 1)"

definition round_double :: "rat \<Rightarrow> rat" where
  "round_double x =
     (if x = 0 then 0
      else let u = 2 powi (expo x - 52) in of_int (rne (x / u)) * u)"

definition js_div :: "rat \<Rightarrow> rat \<Rightarrow> rat" where
  \<comment> \<open>\<open>x / y\<close> for a non-zero divisor\<close>
  "js_div x y = round_double (x / y)"

definition js_mul :: "rat \<Rightarrow> rat \<Rightarrow> rat" where
  "js_mul x y = round_double (x * y)"

definition Math_floor :: "rat \<Rightarrow> int" where
  "Math_floor x = \<lfloor>x\<rfloor>"

section \<open>Errors\<close>

datatype js_error =
    TypeError        \<comment> \<open>property read on \<open>undefined\<close>\<close>
  | RangeError       \<comment> \<open>Buffer access outside the buffer\<close>
  | JimpError        \<comment> \<open>\<open>Jimp.rgbaToInt\<close> on a channel outside 0..255\<close>
  | DecodeError      \<comment> \<open>\<open>Jimp.read\<close> on a file that is not an image\<close>
  | IOError          \<comment> \<open>a file system call that rejects\<close>
  | UnknownColormap  \<comment> \<open>the colormap package rejecting a scale name\<close>
  | NoDoseSlices     \<comment> \<open>the \<open>Error\<close> thrown in line 482 of index.js\<close>
  | NoDoseImages     \<comment> \<open>the \<open>Error\<close> thrown in line 883 of index.js\<close>

section \<open>Jimp images\<close>

text \<open>
  A Jimp image is its bitmap: width, height, and a byte buffer holding four bytes
  (red, green, blue, alpha) per pixel, row by row.
\<close>

record bitmap =
  width :: nat
  height :: nat
  data :: "8 word list"

datatype rgba = RGBA (red: nat) (green: nat) (blue: nat) (alpha: nat)

definition getPixelIndex :: "bitmap \<Rightarrow> nat \<Rightarrow> nat \<Rightarrow> nat option" where
  \<comment> \<open>Jimp's default edge handling clamps a coordinate to the last row or column;
      \<open>None\<close> is the index -1 of an image without pixels\<close>
  "getPixelIndex img x y =
     (if width img = 0 \<or> height img = 0 then None
      else Some (4 * (width img * min y (height img - 1) + min x (width img - 1))))"

definition readUInt32BE :: "8 word list \<Rightarrow> nat \<Rightarrow> js_error + nat" where
  "readUInt32BE buf i =
     (if i + 4 \<le> length buf
      then Inr (unat (buf ! i) * 2 ^ 24 + unat (buf ! (i + 1)) * 2 ^ 16
                + unat (buf ! (i + 2)) * 2 ^ 8 + unat (buf ! (i + 3)))
      else Inl RangeError)"

definition writeUInt32BE :: "8 word list \<Rightarrow> nat \<Rightarrow> nat \<Rightarrow> js_error + 8 word list" where
  "writeUInt32BE buf v i =
     (if i + 4 \<le> length buf
      then Inr (buf[i := of_nat (v div 2 ^ 24),
                    i + 1 := of_nat (v div 2 ^ 16),
                    i + 2 := of_nat (v div 2 ^ 8),
                    i + 3 := of_nat v])
      else Inl RangeError)"

definition getPixelColor :: "bitmap \<Rightarrow> nat \<Rightarrow> nat \<Rightarrow> js_error + nat" where
  "getPixelColor img x y =
     (case getPixelIndex img x y of
        None \<Rightarrow> Inl RangeError
      | Some idx \<Rightarrow> readUInt32BE (data img) idx)"

definition setPixelColor :: "bitmap \<Rightarrow> nat \<Rightarrow> nat \<Rightarrow> nat \<Rightarrow> js_error + bitmap" where
  "setPixelColor img hex x y =
     (case getPixelIndex img x y of
        None \<Rightarrow> Inr img
      | Some idx \<Rightarrow>
          (case writeUInt32BE (data img) hex idx of
             Inl e \<Rightarrow> Inl e
           | Inr buf \<Rightarrow> Inr (img\<lparr>data := buf\<rparr>)))"

definition intToRGBA :: "nat \<Rightarrow> rgba" where
  "intToRGBA i =
     (let r = i div 256 ^ 3;
          g = (i - r * 256 ^ 3) div 256 ^ 2;
          b = (i - r * 256 ^ 3 - g * 256 ^ 2) div 256;
          a = i - r * 256 ^ 3 - g * 256 ^ 2 - b * 256
      in RGBA r g b a)"

definition rgbaToInt :: "int \<Rightarrow> int \<Rightarrow> int \<Rightarrow> int \<Rightarrow> js_error + nat" where
  "rgbaToInt r g b a =
     (if r < 0 \<or> 255 < r then Inl JimpError
      else if g < 0 \<or> 255 < g then Inl JimpError
      else if b < 0 \<or> 255 < b then Inl JimpError
      else if a < 0 \<or> 255 < a then Inl JimpError
      else Inr (nat r * 256 ^ 3 + nat g * 256 ^ 2 + nat b * 256 + nat a))"

section \<open>The colour table\<close>

text \<open>
  The table comes from the \<open>colormap\<close> package, which is not part of the repository: it is
  a parameter of the model. In format \<open>rgba\<close> every entry is an array
  \<open>[r, g, b, alpha]\<close> with integral \<open>r\<close>, \<open>g\<close>, \<open>b\<close>.
\<close>

type_synonym colour_stop = "int \<times> int \<times> int \<times> rat"

record colormap_spec =
  colormap :: string
  nshades :: nat
  format :: string
  alpha_opt :: rat

type_synonym colormap_pkg = "colormap_spec \<Rightarrow> js_error + colour_stop list"

definition colormapOptions :: colormap_spec where
  "colormapOptions = \<lparr>colormap = ''hot'', nshades = 256, format = ''rgba'', alpha_opt = 1\<rparr>"

section \<open>generateHeatmapImage\<close>

text \<open>
  Line numbers without a file name refer to the module that exports
  \<open>processDoseDataFile\<close> (\<open>src/unnamed/part_001\<close>, which index.js requires as
  \<open>./mcnp2png\<close>).
\<close>

primrec collect :: "('a \<Rightarrow> js_error + 'b) \<Rightarrow> 'a list \<Rightarrow> js_error + 'b list" where
  "collect f [] = Inr []"
| "collect f (x # xs) =
     (case f x of
        Inl e \<Rightarrow> Inl e
      | Inr y \<Rightarrow> (case collect f xs of Inl e \<Rightarrow> Inl e | Inr ys \<Rightarrow> Inr (y # ys)))"

definition coords :: "nat \<Rightarrow> nat \<Rightarrow> (nat \<times> nat) list" where
  \<comment> \<open>the pairs \<open>(x, y)\<close> in the order of the nested loops: \<open>y\<close> outside, \<open>x\<close> inside\<close>
  "coords w h = concat (map (\<lambda>y. map (\<lambda>x. (x, y)) [0..<w]) [0..<h])"

definition read_pixels :: "bitmap \<Rightarrow> js_error + rgba list" where
  \<comment> \<open>lines 74 to 81: the array \<open>pixels\<close>\<close>
  "read_pixels img =
     collect (\<lambda>(x, y). case getPixelColor img x y of
                          Inl e \<Rightarrow> Inl e
                        | Inr color \<Rightarrow> Inr (intToRGBA color))
       (coords (width img) (height img))"

definition heat_value :: "nat \<Rightarrow> rat" where
  \<comment> \<open>line 95: \<open>pixel.r / 255\<close>\<close>
  "heat_value r = js_div (of_nat r) 255"

definition heat_index :: "nat \<Rightarrow> nat \<Rightarrow> int" where
  \<comment> \<open>line 98: \<open>Math.floor(value * (colorMap.length - 1))\<close>\<close>
  "heat_index len r = Math_floor (js_mul (heat_value r) (of_int (int len - 1)))"

definition lookup :: "'a list \<Rightarrow> int \<Rightarrow> 'a option" where
  \<comment> \<open>array indexing; \<open>None\<close> is \<open>undefined\<close>\<close>
  "lookup xs k = (if 0 \<le> k \<and> k < int (length xs) then Some (xs ! nat k) else None)"

definition heat_pixel :: "colour_stop list \<Rightarrow> rgba \<Rightarrow> js_error + nat" where
  \<comment> \<open>lines 94 to 99 and the call of \<open>Jimp.rgbaToInt\<close> in line 104\<close>
  "heat_pixel colorMap pixel =
     (case lookup colorMap (heat_index (length colorMap) (red pixel)) of
        None \<Rightarrow> Inl TypeError
      | Some (c0, c1, c2, c3) \<Rightarrow> rgbaToInt c0 c1 c2 255)"

fun heat_loop :: "colour_stop list \<Rightarrow> rgba list \<Rightarrow> nat \<Rightarrow> bitmap \<Rightarrow> js_error + bitmap" where
  \<comment> \<open>lines 93 to 105, entered with the pixels from index \<open>i\<close> on\<close>
  "heat_loop colorMap [] i img = Inr img"
| "heat_loop colorMap (pixel # rest) i img =
     (case heat_pixel colorMap pixel of
        Inl e \<Rightarrow> Inl e
      | Inr hex \<Rightarrow>
          (case setPixelColor img hex (i mod width img) (i div width img) of
             Inl e \<Rightarrow> Inl e
           | Inr img' \<Rightarrow> heat_loop colorMap rest (Suc i) img'))"

definition generateHeatmapImage :: "colormap_pkg \<Rightarrow> bitmap \<Rightarrow> js_error + bitmap" where
  \<comment> \<open>the image is passed as state: the argument is the image before the call, the result
      the same image object after it\<close>
  "generateHeatmapImage pkg img =
     (case read_pixels img of
        Inl e \<Rightarrow> Inl e
      | Inr pixels \<Rightarrow>
          (case pkg colormapOptions of
             Inl e \<Rightarrow> Inl e
           | Inr colorMap \<Rightarrow> heat_loop colorMap pixels 0 img))"

text \<open>
  A caller that follows the specification's signature \<open>map(slice, colormap, vmin, vmax)\<close>
  passes three more arguments. The function declares one parameter, and JavaScript drops
  the arguments beyond the declared ones.
\<close>

definition map_call :: "colormap_pkg \<Rightarrow> bitmap \<Rightarrow> string \<Rightarrow> rat \<Rightarrow> rat \<Rightarrow> js_error + bitmap" where
  "map_call pkg img cmap vmin vmax = generateHeatmapImage pkg img"

subsection \<open>The image as an object\<close>

text \<open>
  Jimp images are objects: the function receives a reference, writes through it and
  returns it. The store maps references to the current state of each image.
\<close>

type_synonym ref = nat
type_synonym store = "ref \<rightharpoonup> bitmap"

definition generateHeatmapImage_ref :: "colormap_pkg \<Rightarrow> store \<Rightarrow> ref \<Rightarrow> js_error + (store \<times> ref)" where
  \<comment> \<open>an exception abandons the call; the state of the store is reported for a call
      that returns\<close>
  "generateHeatmapImage_ref pkg s image_ref =
     (case s image_ref of
        None \<Rightarrow> Inl TypeError
      | Some img \<Rightarrow>
          (case generateHeatmapImage pkg img of
             Inl e \<Rightarrow> Inl e
           | Inr img' \<Rightarrow> Inr (s(image_ref \<mapsto> img'), image_ref)))"

section \<open>processDoseDataFile\<close>

text \<open>
  The output directory holds one subdirectory per view. A directory is the list of its
  entries in the order \<open>readdir\<close> reports them; a file is either an image that
  \<open>Jimp.read\<close> decodes or something else, and it can be written or not.
\<close>

datatype content = Img bitmap | Garbage

datatype disk_file = File (content: content) (writable: bool)

type_synonym dir = "(string \<times> disk_file) list"
type_synonym outdir = "string \<rightharpoonup> dir"

definition views :: "string list" where
  "views = [''axial'', ''coronal'', ''sagittal'']"

definition path_join :: "string \<Rightarrow> string \<Rightarrow> string" where
  \<comment> \<open>\<open>path.join\<close> on two segments that need no normalisation\<close>
  "path_join a b = a @ ''/'' @ b"

definition Jimp_read :: "disk_file \<Rightarrow> js_error + bitmap" where
  "Jimp_read f = (case content f of Img img \<Rightarrow> Inr img | Garbage \<Rightarrow> Inl DecodeError)"

definition writeAsync :: "bitmap \<Rightarrow> disk_file \<Rightarrow> js_error + disk_file" where
  "writeAsync img f = (if writable f then Inr (File (Img img) True) else Inl IOError)"

definition heat_file :: "colormap_pkg \<Rightarrow> disk_file \<Rightarrow> js_error + disk_file" where
  \<comment> \<open>lines 49 to 55: read, map, write back to the same path\<close>
  "heat_file pkg f =
     (case Jimp_read f of
        Inl e \<Rightarrow> Inl e
      | Inr img \<Rightarrow>
          (case generateHeatmapImage pkg img of
             Inl e \<Rightarrow> Inl e
           | Inr heatmapImage \<Rightarrow> writeAsync heatmapImage f))"

fun heat_dir :: "colormap_pkg \<Rightarrow> string \<Rightarrow> dir \<Rightarrow> dir \<times> (js_error + string list)" where
  \<comment> \<open>lines 47 to 58 on the entries of one view folder: the directory afterwards, and the
      paths pushed to \<open>result[view]\<close> or the exception\<close>
  "heat_dir pkg viewFolder [] = ([], Inr [])"
| "heat_dir pkg viewFolder ((name, f) # rest) =
     (case heat_file pkg f of
        Inl e \<Rightarrow> ((name, f) # rest, Inl e)
      | Inr f' \<Rightarrow>
          (case heat_dir pkg viewFolder rest of
             (rest', Inl e) \<Rightarrow> ((name, f') # rest', Inl e)
           | (rest', Inr paths) \<Rightarrow> ((name, f') # rest', Inr (path_join viewFolder name # paths))))"

fun heat_views ::
  "colormap_pkg \<Rightarrow> string \<Rightarrow> string list \<Rightarrow> outdir \<Rightarrow> outdir \<times> (js_error + (string \<times> string list) list)" where
  \<comment> \<open>lines 42 to 59 on the views still to do; \<open>readdir\<close> rejects a missing folder\<close>
  "heat_views pkg outputDir [] fs = (fs, Inr [])"
| "heat_views pkg outputDir (view # rest) fs =
     (case fs view of
        None \<Rightarrow> (fs, Inl IOError)
      | Some files \<Rightarrow>
          (case heat_dir pkg (path_join outputDir view) files of
             (files', Inl e) \<Rightarrow> (fs(view \<mapsto> files'), Inl e)
           | (files', Inr paths) \<Rightarrow>
               (case heat_views pkg outputDir rest (fs(view \<mapsto> files')) of
                  (fs', Inl e) \<Rightarrow> (fs', Inl e)
                | (fs', Inr result) \<Rightarrow> (fs', Inr ((view, paths) # result)))))"

definition heatmap_pass :: "colormap_pkg \<Rightarrow> string \<Rightarrow> outdir \<Rightarrow> outdir \<times> (js_error + (string \<times> string list) list)" where
  \<comment> \<open>lines 40 to 61\<close>
  "heatmap_pass pkg outputDir fs = heat_views pkg outputDir views fs"

text \<open>
  The two Python scripts of lines 26 to 37 are not part of the sources at hand. Each is a
  parameter: it takes the output directory to a new state and may fail.
\<close>

type_synonym script = "outdir \<Rightarrow> outdir \<times> js_error option"

definition processDoseDataFile ::
  "colormap_pkg \<Rightarrow> script \<Rightarrow> script \<Rightarrow> string \<Rightarrow> outdir \<Rightarrow> outdir \<times> (js_error + (string \<times> string list) list)" where
  "processDoseDataFile pkg resample preview outputDir fs =
     (case resample fs of
        (fs1, Some e) \<Rightarrow> (fs1, Inl e)
      | (fs1, None) \<Rightarrow>
          (case preview fs1 of
             (fs2, Some e) \<Rightarrow> (fs2, Inl e)
           | (fs2, None) \<Rightarrow> heatmap_pass pkg outputDir fs2))"

section \<open>The slice listings of index.js\<close>

definition readdir :: "outdir \<Rightarrow> string \<Rightarrow> js_error + string list" where
  \<comment> \<open>\<open>fs.readdir\<close> of a view folder: the names in the order of the directory\<close>
  "readdir fs view =
     (case fs view of None \<Rightarrow> Inl IOError | Some entries \<Rightarrow> Inr (map fst entries))"

definition js_sort :: "string list \<Rightarrow> string list" where
  \<comment> \<open>\<open>Array.prototype.sort\<close> without a comparator, on strings: ascending by code unit,
      a proper prefix first; the names are ASCII, one code unit per character\<close>
  "js_sort files = sort files"

record upload_slices =
  axial :: "string list"
  coronal :: "string list"
  sagittal :: "string list"
  maxSlices :: "nat \<times> nat \<times> nat"

definition upload_view :: "string \<Rightarrow> string \<Rightarrow> string list \<Rightarrow> string list" where
  \<comment> \<open>lines 212 to 214 of index.js\<close>
  "upload_view uploadFolder view files =
     map (\<lambda>file. ''/uploads/'' @ uploadFolder @ ''/slices/'' @ view @ ''/'' @ file)
       (js_sort files)"

definition upload_listing :: "string \<Rightarrow> outdir \<Rightarrow> js_error + upload_slices" where
  \<comment> \<open>lines 196 to 216 of index.js, the loop over the three views written out\<close>
  "upload_listing uploadFolder fs =
     (case readdir fs ''axial'' of
        Inl e \<Rightarrow> Inl e
      | Inr a \<Rightarrow>
          (case readdir fs ''coronal'' of
             Inl e \<Rightarrow> Inl e
           | Inr c \<Rightarrow>
               (case readdir fs ''sagittal'' of
                  Inl e \<Rightarrow> Inl e
                | Inr s \<Rightarrow>
                    Inr \<lparr>axial = upload_view uploadFolder ''axial'' a,
                         coronal = upload_view uploadFolder ''coronal'' c,
                         sagittal = upload_view uploadFolder ''sagittal'' s,
                         maxSlices = (length a, length c, length s)\<rparr>)))"

record dose_slices =
  doseAxial :: "string list"
  doseCoronal :: "string list"
  doseSagittal :: "string list"

definition dose_view :: "outdir \<Rightarrow> string \<Rightarrow> string list" where
  \<comment> \<open>lines 463 to 476 of index.js for one view: a missing or empty folder leaves the
      empty array\<close>
  "dose_view fs view =
     (case fs view of
        None \<Rightarrow> []
      | Some entries \<Rightarrow>
          (if 0 < length entries
           then map (\<lambda>file. ''/dosepng/wholebody/'' @ view @ ''/'' @ file)
                  (js_sort (map fst entries))
           else []))"

definition wholebody_slices :: "outdir \<Rightarrow> js_error + dose_slices" where
  \<comment> \<open>lines 455 to 483 of index.js\<close>
  "wholebody_slices fs =
     (let result = \<lparr>doseAxial = dose_view fs ''axial'',
                      doseCoronal = dose_view fs ''coronal'',
                      doseSagittal = dose_view fs ''sagittal''\<rparr>;
          totalSlices = length (doseAxial result) + length (doseCoronal result)
                        + length (doseSagittal result)
      in if totalSlices = 0 then Inl NoDoseSlices else Inr result)"

definition view_paths :: "(string \<times> string list) list \<Rightarrow> string \<Rightarrow> string list" where
  \<comment> \<open>\<open>doseImages.axial\<close> and so on; the three keys are always there\<close>
  "view_paths doseImages view = (case map_of doseImages view of None \<Rightarrow> [] | Some ps \<Rightarrow> ps)"

definition process_npy_images ::
  "colormap_pkg \<Rightarrow> script \<Rightarrow> script \<Rightarrow> string \<Rightarrow> outdir
     \<Rightarrow> outdir \<times> (js_error + (string \<times> string list) list)" where
  \<comment> \<open>lines 878 to 884 of index.js\<close>
  "process_npy_images pkg resample preview outputDir fs =
     (case processDoseDataFile pkg resample preview outputDir fs of
        (fs', Inl e) \<Rightarrow> (fs', Inl e)
      | (fs', Inr doseImages) \<Rightarrow>
          (let totalImages = length (view_paths doseImages ''axial'')
                             + length (view_paths doseImages ''coronal'')
                             + length (view_paths doseImages ''sagittal'')
           in if totalImages = 0 then (fs', Inl NoDoseImages) else (fs', Inr doseImages)))"

section \<open>Slice file names\<close>

definition digit :: "nat \<Rightarrow> char" where
  "digit d = char_of (48 + d)"

function dec :: "nat \<Rightarrow> string" where
  \<comment> \<open>the decimal numeral of a number\<close>
  "dec n = (if n < 10 then [digit n] else dec (n div 10) @ [digit (n mod 10)])"
  by pat_completeness auto
termination
  by (relation "measure id") auto

declare dec.simps [simp del]

definition zero_pad :: "nat \<Rightarrow> string \<Rightarrow> string" where
  \<comment> \<open>pad with zeros on the left up to the width; a longer numeral is kept whole\<close>
  "zero_pad w s = replicate (w - length s) (CHR ''0'') @ s"

definition slice_filename :: "nat \<Rightarrow> string \<Rightarrow> nat \<Rightarrow> string" where
  \<comment> \<open>Modelled from the spec: the scripts nii_preview.py and dose_to_png.py, which write
      the slice files, are not among the sources. Sections 4.4 and 6 give the file name as
      the zero-padded index followed by the extension; the width is a parameter.\<close>
  "slice_filename w ext i = zero_pad w (dec i) @ ''.'' @ ext"

section \<open>Notions used in the statements\<close>

definition wf_bitmap :: "bitmap \<Rightarrow> bool" where
  \<comment> \<open>the invariant of a Jimp bitmap: four bytes for each of the width times height pixels\<close>
  "wf_bitmap img \<longleftrightarrow> length (data img) = 4 * (width img * height img)"

definition colour_at :: "8 word list \<Rightarrow> nat \<Rightarrow> nat" where
  \<comment> \<open>the 32-bit colour of pixel \<open>k\<close>, counting row by row\<close>
  "colour_at buf k = unat (buf ! (4 * k)) * 2 ^ 24 + unat (buf ! (4 * k + 1)) * 2 ^ 16
                     + unat (buf ! (4 * k + 2)) * 2 ^ 8 + unat (buf ! (4 * k + 3))"

definition pixel_at :: "8 word list \<Rightarrow> nat \<Rightarrow> rgba" where
  "pixel_at buf k = RGBA (unat (buf ! (4 * k))) (unat (buf ! (4 * k + 1)))
                      (unat (buf ! (4 * k + 2))) (unat (buf ! (4 * k + 3)))"

definition pixel_bytes :: "nat \<Rightarrow> 8 word list" where
  \<comment> \<open>the four bytes that \<open>writeUInt32BE\<close> stores for a colour\<close>
  "pixel_bytes hex =
     [of_nat (hex div 2 ^ 24), of_nat (hex div 2 ^ 16), of_nat (hex div 2 ^ 8), of_nat hex]"

definition valid_stop :: "colour_stop \<Rightarrow> bool" where
  "valid_stop c = (case c of (c0, c1, c2, c3) \<Rightarrow>
     0 \<le> c0 \<and> c0 \<le> 255 \<and> 0 \<le> c1 \<and> c1 \<le> 255 \<and> 0 \<le> c2 \<and> c2 \<le> 255)"

definition valid_table :: "colour_stop list \<Rightarrow> bool" where
  \<comment> \<open>what the package returns for 256 shades: 256 entries of byte-sized channels\<close>
  "valid_table colorMap \<longleftrightarrow> length colorMap = 256 \<and> list_all valid_stop colorMap"

definition stop_pixel :: "colour_stop \<Rightarrow> rgba" where
  \<comment> \<open>the pixel written for a table entry: its three colour channels and alpha 255\<close>
  "stop_pixel c = (case c of (c0, c1, c2, c3) \<Rightarrow> RGBA (nat c0) (nat c1) (nat c2) 255)"

definition heated :: "colormap_pkg \<Rightarrow> string \<times> disk_file \<Rightarrow> string \<times> disk_file \<Rightarrow> bool" where
  \<comment> \<open>the second entry is the first one overwritten with its heat map\<close>
  "heated pkg old new \<longleftrightarrow> fst new = fst old \<and> heat_file pkg (snd old) = Inr (snd new)"

definition fully_heated :: "colormap_pkg \<Rightarrow> outdir \<Rightarrow> outdir \<Rightarrow> string \<Rightarrow> bool" where
  \<comment> \<open>every file of the view has been overwritten\<close>
  "fully_heated pkg fs fs' view \<longleftrightarrow>
     (\<exists>files files'. fs view = Some files \<and> fs' view = Some files'
        \<and> list_all2 (heated pkg) files files')"

definition stopped_in :: "colormap_pkg \<Rightarrow> outdir \<Rightarrow> outdir \<Rightarrow> string \<Rightarrow> js_error \<Rightarrow> bool" where
  \<comment> \<open>the pass stopped in this view: the folder is missing, or the files before the
      failing one are overwritten and the failing file and the ones after it are as they were\<close>
  "stopped_in pkg fs fs' view e \<longleftrightarrow>
     (fs view = None \<and> fs' view = None \<and> e = IOError)
     \<or> (\<exists>dn dn' f rest.
           fs view = Some (dn @ f # rest) \<and> fs' view = Some (dn' @ f # rest)
           \<and> list_all2 (heated pkg) dn dn' \<and> heat_file pkg (snd f) = Inl e)"



subsection \<open>An instance of the colour table\<close>

text \<open>
  For closed examples the package parameter is instantiated with the 256 shades of the
  \<open>hot\<close> scale: anchors \<open>(0,0,0)\<close> at index 0, \<open>(230,0,0)\<close> at 77, \<open>(255,210,0)\<close>
  at 153 and \<open>(255,255,255)\<close> at 255, interpolated linearly in between and rounded to the
  nearest integer. The interpolation is written in exact arithmetic. Only the \<open>hot\<close>
  scale is modelled; a request for another name, which the source never makes, is
  answered as an unsupported name is.
\<close>

definition round_div :: "int \<Rightarrow> int \<Rightarrow> int" where
  \<comment> \<open>\<open>Math.round(a / b)\<close> for positive \<open>b\<close>\<close>
  "round_div a b = (2 * a + b) div (2 * b)"

definition hot_entry :: "nat \<Rightarrow> colour_stop" where
  "hot_entry k =
     (if k < 77 then (round_div (230 * int k) 77, 0, 0, 1)
      else if k < 153 then
        (230 + round_div (25 * (int k - 77)) 76, round_div (210 * (int k - 77)) 76, 0, 1)
      else if k < 255 then
        (255, 210 + round_div (45 * (int k - 153)) 102, round_div (255 * (int k - 153)) 102, 1)
      else (255, 255, 255, 1))"

definition hot256 :: "colour_stop list" where
  "hot256 = map hot_entry [0..<256]"

definition hot_pkg :: colormap_pkg where
  "hot_pkg opts = (if colormap opts = ''hot'' then Inr hot256 else Inl UnknownColormap)"

subsection \<open>Example images\<close>

definition px1 :: "8 word \<Rightarrow> 8 word \<Rightarrow> 8 word \<Rightarrow> 8 word \<Rightarrow> bitmap" where
  \<comment> \<open>an image of one pixel\<close>
  "px1 r g b a = \<lparr>width = 1, height = 1, data = [r, g, b, a]\<rparr>"

definition red_channel :: "bitmap \<Rightarrow> 8 word list" where
  \<comment> \<open>the red byte of every pixel, row by row\<close>
  "red_channel img = map (\<lambda>k. data img ! (4 * k)) [0..<width img * height img]"

definition hex_of_stop :: "colour_stop \<Rightarrow> nat" where
  \<comment> \<open>the colour \<open>Jimp.rgbaToInt\<close> returns for a table entry and alpha 255\<close>
  "hex_of_stop c = (case c of (c0, c1, c2, c3) \<Rightarrow>
     nat c0 * 256 ^ 3 + nat c1 * 256 ^ 2 + nat c2 * 256 + 255)"

definition result_pixel :: "js_error + bitmap \<Rightarrow> nat \<Rightarrow> js_error + rgba" where
  \<comment> \<open>pixel \<open>k\<close> of the image a call returns\<close>
  "result_pixel res k = (case res of Inl e \<Rightarrow> Inl e | Inr out \<Rightarrow> Inr (pixel_at (data out) k))"

text \<open>
  The normalisation as the specification words it (section 4.3), for comparison with
  \<open>heat_value\<close>: \<open>t = clamp((value - vmin) / (vmax - vmin), 0, 1)\<close>, and \<open>t = 0\<close> when
  \<open>vmax = vmin\<close>.
\<close>

definition spec_normalize :: "rat \<Rightarrow> rat \<Rightarrow> rat \<Rightarrow> rat" where
  "spec_normalize v vmin vmax =
     (if vmax = vmin then 0 else max 0 (min 1 ((v - vmin) / (vmax - vmin))))"

text \<open>The slice of the scenario, values 0 to 15, and the same slice scaled to 0..255.\<close>

definition slice4x4 :: bitmap where
  "slice4x4 = \<lparr>width = 4, height = 4, data =
     [0, 0, 0, 255,  1, 1, 1, 255,  2, 2, 2, 255,  3, 3, 3, 255,
      4, 4, 4, 255,  5, 5, 5, 255,  6, 6, 6, 255,  7, 7, 7, 255,
      8, 8, 8, 255,  9, 9, 9, 255,  10, 10, 10, 255,  11, 11, 11, 255,
      12, 12, 12, 255,  13, 13, 13, 255,  14, 14, 14, 255,  15, 15, 15, 255]\<rparr>"

definition ramp4x4 :: bitmap where
  "ramp4x4 = \<lparr>width = 4, height = 4, data =
     [0, 0, 0, 255,  17, 17, 17, 255,  34, 34, 34, 255,  51, 51, 51, 255,
      68, 68, 68, 255,  85, 85, 85, 255,  102, 102, 102, 255,  119, 119, 119, 255,
      136, 136, 136, 255,  153, 153, 153, 255,  170, 170, 170, 255,  187, 187, 187, 255,
      204, 204, 204, 255,  221, 221, 221, 255,  238, 238, 238, 255,  255, 255, 255, 255]\<rparr>"

definition px2 :: "8 word list \<Rightarrow> bitmap" where
  "px2 bytes = \<lparr>width = 2, height = 1, data = bytes\<rparr>"

definition px2v :: "8 word list \<Rightarrow> bitmap" where
  "px2v bytes = \<lparr>width = 1, height = 2, data = bytes\<rparr>"

subsection \<open>Example directories\<close>

definition empty_volume :: outdir where
  \<comment> \<open>the output directory for a volume without slices: three empty view folders\<close>
  "empty_volume = [''axial'' \<mapsto> [], ''coronal'' \<mapsto> [], ''sagittal'' \<mapsto> []]"

definition no_script :: script where
  \<comment> \<open>a script run that succeeds and leaves the directory as it is\<close>
  "no_script fs = (fs, None)"

definition broken_axial :: outdir where
  \<comment> \<open>an axial folder whose second file is not an image\<close>
  "broken_axial = [''axial'' \<mapsto> [(''000.png'', File (Img (px1 0 0 0 0)) True),
                                     (''001.png'', File Garbage True)],
                   ''coronal'' \<mapsto> [], ''sagittal'' \<mapsto> []]"

definition broken_axial_after :: outdir where
  "broken_axial_after = [''axial'' \<mapsto> [(''000.png'', File (Img (px1 0 0 0 255)) True),
                                           (''001.png'', File Garbage True)],
                         ''coronal'' \<mapsto> [], ''sagittal'' \<mapsto> []]"


section \<open>Reading and writing pixels\<close>

lemma coords_index: "map (\<lambda>(x, y). w * y + x) (coords w h) = [0..<w * h]"
proof (induction h)
  case 0
  show ?case by (simp add: coords_def)
next
  case (Suc h)
  have "map (\<lambda>x. w * h + x) [0..<w] = [w * h..<w * h + w]"
    by (simp add: map_add_upt add.commute)
  moreover have "[0..<w * h] @ [w * h..<w * h + w] = [0..<w * h + w]"
    using upt_add_eq_append [of 0 "w * h" w] by simp
  ultimately show ?case
    using Suc by (simp add: coords_def comp_def add.commute)
qed

lemma coords_bounds: "(x, y) \<in> set (coords w h) \<Longrightarrow> x < w \<and> y < h"
  by (auto simp: coords_def)

lemma collect_map:
  "(\<And>x. x \<in> set xs \<Longrightarrow> f x = Inr (g x)) \<Longrightarrow> collect f xs = Inr (map g xs)"
  by (induction xs) simp_all

lemma unat8_lt: "unat (w :: 8 word) < 256"
  using unsigned_less [of w, where 'a = nat] by simp

lemma intToRGBA_bytes:
  assumes "a < 256" "b < 256" "c < 256" "d < 256"
  shows "intToRGBA (a * 2 ^ 24 + b * 2 ^ 16 + c * 2 ^ 8 + d) = RGBA a b c d"
proof -
  define i where "i = a * 2 ^ 24 + b * 2 ^ 16 + c * 2 ^ 8 + d"
  have r: "i div 256 ^ 3 = a"
    using assms unfolding i_def by (simp; arith)
  have g: "(i - a * 256 ^ 3) div 256 ^ 2 = b"
    using assms unfolding i_def by (simp; arith)
  have b: "(i - a * 256 ^ 3 - b * 256 ^ 2) div 256 = c"
    using assms unfolding i_def by simp
  have a: "i - a * 256 ^ 3 - b * 256 ^ 2 - c * 256 = d"
    unfolding i_def by simp
  have "intToRGBA i = RGBA a b c d"
    by (simp only: intToRGBA_def Let_def r g b a)
  then show ?thesis by (simp only: i_def)
qed

lemma getPixelColor_wf:
  assumes "length (data img) = 4 * (width img * height img)" "x < width img" "y < height img"
  shows "getPixelColor img x y = Inr (colour_at (data img) (width img * y + x))"
proof -
  have "width img * y + x < width img * height img"
  proof -
    have "width img * y + x < width img * y + width img" using assms by simp
    also have "\<dots> = width img * Suc y" by simp
    also have "\<dots> \<le> width img * height img" using assms by (intro mult_le_mono2) simp
    finally show ?thesis .
  qed
  moreover have "min y (height img - 1) = y" "min x (width img - 1) = x"
    using assms by simp_all
  moreover have "width img \<noteq> 0" "height img \<noteq> 0"
    using assms by simp_all
  ultimately show ?thesis
    using assms(1)
    by (simp add: getPixelColor_def getPixelIndex_def readUInt32BE_def colour_at_def)
qed

lemma intToRGBA_colour_at: "intToRGBA (colour_at buf k) = pixel_at buf k"
  unfolding colour_at_def pixel_at_def
  by (rule intToRGBA_bytes) (rule unat8_lt)+

lemma read_pixels_wf:
  assumes "length (data img) = 4 * (width img * height img)"
  shows "read_pixels img = Inr (map (pixel_at (data img)) [0..<width img * height img])"
proof -
  have "read_pixels img =
      Inr (map (\<lambda>(x, y). pixel_at (data img) (width img * y + x)) (coords (width img) (height img)))"
    unfolding read_pixels_def
    by (rule collect_map)
       (auto dest!: coords_bounds simp: getPixelColor_wf [OF assms] intToRGBA_colour_at)
  also have "map (\<lambda>(x, y). pixel_at (data img) (width img * y + x)) (coords (width img) (height img))
      = map (pixel_at (data img)) (map (\<lambda>(x, y). width img * y + x) (coords (width img) (height img)))"
    by (simp add: comp_def case_prod_unfold)
  finally show ?thesis by (simp add: coords_index)
qed

lemma update4:
  assumes "i + 4 \<le> length buf"
  shows "buf[i := a, i + 1 := b, i + 2 := c, i + 3 := d] = take i buf @ [a, b, c, d] @ drop (i + 4) buf"
proof -
  obtain p q where buf: "buf = p @ q" and p: "length p = i"
    using assms by (metis append_take_drop_id length_take min.absorb2 add_leE)
  obtain x0 x1 x2 x3 s where q: "q = x0 # x1 # x2 # x3 # s"
  proof -
    have "4 \<le> length q" using assms buf p by simp
    then show ?thesis
      using that by (cases q; simp; cases "tl q"; simp; cases "tl (tl q)"; simp; cases "tl (tl (tl q))"; simp)
  qed
  show ?thesis
    unfolding buf q using p by (simp add: list_update_append)
qed

lemma setPixelColor_wf:
  assumes "length (data img) = 4 * (width img * height img)" "i < width img * height img"
  shows "setPixelColor img hex (i mod width img) (i div width img)
      = Inr (img\<lparr>data := take (4 * i) (data img) @ pixel_bytes hex @ drop (4 * i + 4) (data img)\<rparr>)"
proof -
  have w: "0 < width img"
    using assms(2) by (cases "width img = 0") simp_all
  have h: "0 < height img"
    using assms(2) by (cases "height img = 0") simp_all
  have x: "i mod width img < width img" using w by simp
  have "i < height img * width img"
    using assms(2) by (simp only: mult.commute)
  then have y: "i div width img < height img"
    by (rule less_mult_imp_div_less)
  have "min (i div width img) (height img - 1) = i div width img"
    "min (i mod width img) (width img - 1) = i mod width img"
    using x y by simp_all
  then have idx: "getPixelIndex img (i mod width img) (i div width img) = Some (4 * i)"
    using w h by (simp add: getPixelIndex_def)
  have len: "4 * i + 4 \<le> length (data img)" using assms by simp
  have "writeUInt32BE (data img) hex (4 * i)
      = Inr (take (4 * i) (data img) @ pixel_bytes hex @ drop (4 * i + 4) (data img))"
    unfolding writeUInt32BE_def pixel_bytes_def
    by (simp only: len if_True update4 [OF len])
  then show ?thesis
    unfolding setPixelColor_def idx by simp
qed

section \<open>The loops of generateHeatmapImage\<close>

lemma length_pixel_bytes: "length (pixel_bytes hex) = 4"
  by (simp add: pixel_bytes_def)

lemma heat_loop_wf:
  assumes "length (data img) = 4 * (width img * height img)"
    and "i + length pixels \<le> width img * height img"
  shows "heat_loop cm pixels i img =
    (case collect (heat_pixel cm) pixels of
       Inl e \<Rightarrow> Inl e
     | Inr hexes \<Rightarrow>
         Inr (img\<lparr>data := take (4 * i) (data img) @ concat (map pixel_bytes hexes)
                @ drop (4 * (i + length pixels)) (data img)\<rparr>))"
  using assms
proof (induction pixels arbitrary: i img)
  case Nil
  then show ?case by simp
next
  case (Cons pixel rest)
  show ?case
  proof (cases "heat_pixel cm pixel")
    case (Inl e)
    then show ?thesis by simp
  next
    case (Inr hex)
    let ?img' = "img\<lparr>data := take (4 * i) (data img) @ pixel_bytes hex @ drop (4 * i + 4) (data img)\<rparr>"
    have i: "i < width img * height img" using Cons.prems by simp
    have set: "setPixelColor img hex (i mod width img) (i div width img) = Inr ?img'"
      using setPixelColor_wf [OF Cons.prems(1) i] .
    have len: "4 * i + 4 \<le> length (data img)" using Cons.prems by simp
    have wf': "length (data ?img') = 4 * (width ?img' * height ?img')"
      using Cons.prems len by (simp add: length_pixel_bytes)
    have bound': "Suc i + length rest \<le> width ?img' * height ?img'"
      using Cons.prems by simp
    have IH: "heat_loop cm rest (Suc i) ?img' =
      (case collect (heat_pixel cm) rest of
         Inl e \<Rightarrow> Inl e
       | Inr hexes \<Rightarrow>
           Inr (?img'\<lparr>data := take (4 * Suc i) (data ?img') @ concat (map pixel_bytes hexes)
                  @ drop (4 * (Suc i + length rest)) (data ?img')\<rparr>))"
      by (rule Cons.IH [OF wf' bound'])
    have tk: "take (4 * Suc i) (data ?img') = take (4 * i) (data img) @ pixel_bytes hex"
      using len by (simp add: length_pixel_bytes)
    have dr: "drop (4 * (Suc i + length rest)) (data ?img')
        = drop (4 * (i + length (pixel # rest))) (data img)"
      using len by (simp add: length_pixel_bytes add.commute add.left_commute)
    show ?thesis
      using Inr set IH tk dr by (simp split: sum.splits)
  qed
qed

lemma collect_length: "collect f xs = Inr ys \<Longrightarrow> length ys = length xs"
  by (induction xs arbitrary: ys) (auto split: sum.splits)

lemma collect_nth: "collect f xs = Inr ys \<Longrightarrow> k < length xs \<Longrightarrow> f (xs ! k) = Inr (ys ! k)"
proof (induction xs arbitrary: ys k)
  case Nil
  then show ?case by simp
next
  case (Cons x xs)
  then show ?case by (cases k) (auto split: sum.splits)
qed

lemma collect_cong: "(\<And>x. x \<in> set xs \<Longrightarrow> f x = g x) \<Longrightarrow> collect f xs = collect g xs"
  by (induction xs) (simp_all cong: sum.case_cong)

lemma collect_comp: "collect f (map h xs) = collect (\<lambda>x. f (h x)) xs"
  by (induction xs) (simp_all cong: sum.case_cong)

lemma generateHeatmapImage_wf:
  assumes "wf_bitmap img"
  shows "generateHeatmapImage pkg img =
    (case pkg colormapOptions of
       Inl e \<Rightarrow> Inl e
     | Inr colorMap \<Rightarrow>
         (case collect (\<lambda>k. heat_pixel colorMap (pixel_at (data img) k)) [0..<width img * height img] of
            Inl e \<Rightarrow> Inl e
          | Inr hexes \<Rightarrow> Inr (img\<lparr>data := concat (map pixel_bytes hexes)\<rparr>)))"
proof -
  let ?n = "width img * height img"
  let ?pixels = "map (pixel_at (data img)) [0..<?n]"
  have wf: "length (data img) = 4 * ?n" using assms by (simp add: wf_bitmap_def)
  have rp: "read_pixels img = Inr ?pixels" by (rule read_pixels_wf [OF wf])
  have loop: "heat_loop cm ?pixels 0 img =
    (case collect (heat_pixel cm) ?pixels of
       Inl e \<Rightarrow> Inl e
     | Inr hexes \<Rightarrow> Inr (img\<lparr>data := concat (map pixel_bytes hexes)\<rparr>))" for cm
  proof -
    have "heat_loop cm ?pixels 0 img =
      (case collect (heat_pixel cm) ?pixels of
         Inl e \<Rightarrow> Inl e
       | Inr hexes \<Rightarrow>
           Inr (img\<lparr>data := take (4 * 0) (data img) @ concat (map pixel_bytes hexes)
                  @ drop (4 * (0 + length ?pixels)) (data img)\<rparr>))"
      by (rule heat_loop_wf [OF wf]) simp
    then show ?thesis using wf by (simp cong: sum.case_cong)
  qed
  show ?thesis
    unfolding generateHeatmapImage_def rp
    by (simp add: loop collect_comp split: sum.splits)
qed

lemma concat_pixel_bytes_nth:
  "k < length hexes \<Longrightarrow> j < 4 \<Longrightarrow> concat (map pixel_bytes hexes) ! (4 * k + j) = pixel_bytes (hexes ! k) ! j"
proof (induction hexes arbitrary: k)
  case Nil
  then show ?case by simp
next
  case (Cons h hs)
  show ?case
  proof (cases k)
    case 0
    then show ?thesis using Cons.prems by (simp add: nth_append length_pixel_bytes)
  next
    case (Suc k')
    then have "concat (map pixel_bytes (h # hs)) ! (4 * k + j) = concat (map pixel_bytes hs) ! (4 * k' + j)"
      by (simp add: nth_append length_pixel_bytes)
    then show ?thesis using Cons Suc by simp
  qed
qed

lemma length_concat_pixel_bytes: "length (concat (map pixel_bytes hexes)) = 4 * length hexes"
  by (induction hexes) (simp_all add: length_pixel_bytes)

lemma pixel_at_concat:
  assumes "k < length hexes"
  shows "pixel_at (concat (map pixel_bytes hexes)) k = pixel_at (pixel_bytes (hexes ! k)) 0"
  using concat_pixel_bytes_nth [OF assms, of 0] concat_pixel_bytes_nth [OF assms, of 1]
    concat_pixel_bytes_nth [OF assms, of 2] concat_pixel_bytes_nth [OF assms, of 3]
  by (simp add: pixel_at_def numeral_2_eq_2)

text \<open>What a successful call leaves in pixel k.\<close>

lemma generateHeatmapImage_pixel:
  assumes "wf_bitmap img" "generateHeatmapImage pkg img = Inr out" "k < width img * height img"
  shows "\<exists>colorMap hex. pkg colormapOptions = Inr colorMap
      \<and> heat_pixel colorMap (pixel_at (data img) k) = Inr hex
      \<and> pixel_at (data out) k = pixel_at (pixel_bytes hex) 0"
proof -
  let ?n = "width img * height img"
  from assms(2) obtain colorMap where cm: "pkg colormapOptions = Inr colorMap"
    unfolding generateHeatmapImage_wf [OF assms(1)] by (auto split: sum.splits)
  from assms(2) cm obtain hexes where
    hexes: "collect (\<lambda>k. heat_pixel colorMap (pixel_at (data img) k)) [0..<?n] = Inr hexes"
    and out: "out = img\<lparr>data := concat (map pixel_bytes hexes)\<rparr>"
    unfolding generateHeatmapImage_wf [OF assms(1)] by (auto split: sum.splits)
  have len: "length hexes = ?n" using collect_length [OF hexes] by simp
  have "heat_pixel colorMap (pixel_at (data img) ([0..<?n] ! k)) = Inr (hexes ! k)"
    using collect_nth [OF hexes, of k] assms(3) by simp
  then have "heat_pixel colorMap (pixel_at (data img) k) = Inr (hexes ! k)"
    using assms(3) by simp
  moreover have "pixel_at (data out) k = pixel_at (pixel_bytes (hexes ! k)) 0"
    using pixel_at_concat [of k hexes] len assms(3) out by simp
  ultimately show ?thesis using cm by blast
qed

lemma generateHeatmapImage_dims:
  assumes "wf_bitmap img" "generateHeatmapImage pkg img = Inr out"
  shows "width out = width img \<and> height out = height img \<and> wf_bitmap out"
proof -
  let ?n = "width img * height img"
  from assms(2) obtain colorMap hexes where
    hexes: "collect (\<lambda>k. heat_pixel colorMap (pixel_at (data img) k)) [0..<?n] = Inr hexes"
    and out: "out = img\<lparr>data := concat (map pixel_bytes hexes)\<rparr>"
    unfolding generateHeatmapImage_wf [OF assms(1)] by (auto split: sum.splits)
  have len: "length hexes = ?n" using collect_length [OF hexes] by simp
  show ?thesis using out len by (simp add: wf_bitmap_def length_concat_pixel_bytes)
qed

lemma heat_pixel_red: "red p = red q \<Longrightarrow> heat_pixel cm p = heat_pixel cm q"
  by (simp add: heat_pixel_def)

section \<open>Claims about generateHeatmapImage\<close>

text \<open>
  Claim C10. The output of \<open>generateHeatmapImage\<close> depends only on the red channel of
  each pixel: two images of equal dimensions whose red channels agree at every pixel give
  the same result (the same heat map, or the same exception), whatever their green, blue
  and alpha channels hold.
\<close>

theorem heatmap_depends_on_red_only:
  assumes "wf_bitmap a" and "wf_bitmap b"
    and "width a = width b" and "height a = height b"
    and "red_channel a = red_channel b"
  shows "generateHeatmapImage pkg a = generateHeatmapImage pkg b"
proof -
  let ?n = "width a * height a"
  have red: "red (pixel_at (data a) k) = red (pixel_at (data b) k)" if "k < ?n" for k
  proof -
    have "red_channel a ! k = red_channel b ! k" using assms(5) by simp
    then show ?thesis
      using that assms(3,4) by (simp add: red_channel_def pixel_at_def)
  qed
  have "collect (\<lambda>k. heat_pixel cm (pixel_at (data a) k)) [0..<?n]
      = collect (\<lambda>k. heat_pixel cm (pixel_at (data b) k)) [0..<?n]" for cm
    by (rule collect_cong) (simp add: heat_pixel_red [OF red])
  moreover have "a\<lparr>data := d\<rparr> = b\<lparr>data := d\<rparr>" for d
    using assms(3,4) by simp
  ultimately show ?thesis
    unfolding generateHeatmapImage_wf [OF assms(1)] generateHeatmapImage_wf [OF assms(2)]
    using assms(3,4) by (simp split: sum.splits)
qed

theorem heatmap_depends_on_red_only_witness:
  "wf_bitmap (px1 10 1 2 3) \<and> wf_bitmap (px1 10 200 100 50)
   \<and> red_channel (px1 10 1 2 3) = red_channel (px1 10 200 100 50)
   \<and> px1 10 1 2 3 \<noteq> px1 10 200 100 50
   \<and> generateHeatmapImage hot_pkg (px1 10 1 2 3) = generateHeatmapImage hot_pkg (px1 10 200 100 50)"
proof -
  have 1: "wf_bitmap (px1 10 1 2 3)" and 2: "wf_bitmap (px1 10 200 100 50)"
    by (simp_all add: wf_bitmap_def px1_def)
  have 3: "width (px1 10 1 2 3) = width (px1 10 200 100 50)"
    and 4: "height (px1 10 1 2 3) = height (px1 10 200 100 50)"
    by (simp_all add: px1_def)
  have 5: "red_channel (px1 10 1 2 3) = red_channel (px1 10 200 100 50)"
    by (simp add: red_channel_def px1_def)
  have 6: "px1 10 1 2 3 \<noteq> px1 10 200 100 50"
    by (simp add: px1_def)
  show ?thesis
    using 1 2 5 6 heatmap_depends_on_red_only [OF 1 2 3 4 5, of hot_pkg] by simp
qed

lemma hot256_nth: "k < 256 \<Longrightarrow> hot256 ! k = hot_entry k"
  by (simp add: hot256_def)

lemma length_hot256: "length hot256 = 256"
  by (simp add: hot256_def)

lemma heat_index_0: "heat_index n 0 = 0"
  by (simp add: heat_index_def heat_value_def js_div_def js_mul_def round_double_def Math_floor_def)

lemma black_pixel: "generateHeatmapImage hot_pkg (px1 0 g b a) = Inr (px1 0 0 0 255)"
proof -
  have wf: "wf_bitmap (px1 0 g b a)" by (simp add: wf_bitmap_def px1_def)
  have "heat_pixel hot256 (pixel_at [0, g, b, a] 0) = Inr 255"
    by (simp add: heat_pixel_def pixel_at_def heat_index_0 lookup_def length_hot256
        hot256_nth hot_entry_def round_div_def rgbaToInt_def)
  moreover have "pixel_bytes 255 = [0, 0, 0, 255]"
    by (simp add: pixel_bytes_def)
  ultimately show ?thesis
    unfolding generateHeatmapImage_wf [OF wf]
    by (simp add: hot_pkg_def colormapOptions_def px1_def)
qed

section \<open>Double-precision rounding\<close>

lemma powi2_less_imp: "(2::rat) powi a < 2 powi b \<Longrightarrow> a < b"
proof (rule ccontr)
  assume lt: "(2::rat) powi a < 2 powi b" and "\<not> a < b"
  then have "b \<le> a" by simp
  then have "(2::rat) powi b \<le> 2 powi a" by (intro power_int_increasing) simp_all
  with lt show False by simp
qed

lemma binade_unique:
  assumes "(2::rat) powi e \<le> x" "x < 2 powi (e + 1)" "2 powi e' \<le> x" "x < 2 powi (e' + 1)"
  shows "e = e'"
proof -
  have "(2::rat) powi e < 2 powi (e' + 1)" using assms by linarith
  then have "e < e' + 1" by (rule powi2_less_imp)
  moreover have "(2::rat) powi e' < 2 powi (e + 1)" using assms by linarith
  then have "e' < e + 1" by (rule powi2_less_imp)
  ultimately show ?thesis by simp
qed

lemma expo_bounds:
  assumes "0 < x"
  shows "2 powi expo x \<le> x \<and> x < 2 powi (expo x + 1)"
proof -
  obtain p q where pq: "quotient_of x = (p, q)" by (cases "quotient_of x")
  have q: "0 < q" using quotient_of_denom_pos [OF pq] .
  have x: "x = of_int p / of_int q" using quotient_of_div [OF pq] .
  have p: "0 < p"
    using assms q unfolding x by (simp add: zero_less_divide_iff)
  let ?bp = "bitlen p" and ?bq = "bitlen q"
  let ?e = "?bp - ?bq"
  from bitlen_bounds [OF p] have p1: "2 ^ nat (?bp - 1) \<le> p" and p2: "p < 2 ^ nat ?bp" by simp_all
  from bitlen_bounds [OF q] have q1: "2 ^ nat (?bq - 1) \<le> q" and q2: "q < 2 ^ nat ?bq" by simp_all
  have bp: "1 \<le> ?bp" using p by (simp add: bitlen_alt_def)
  have bq: "1 \<le> ?bq" using q by (simp add: bitlen_alt_def)
  have P1: "(2::rat) powi (?bp - 1) \<le> of_int p"
  proof -
    have "(of_int (2 ^ nat (?bp - 1)) :: rat) \<le> of_int p" using p1 by (simp only: of_int_le_iff)
    moreover have "(2::rat) powi (?bp - 1) = 2 ^ nat (?bp - 1)"
      using bp by (simp add: power_int_def)
    ultimately show ?thesis by simp
  qed
  have P2: "of_int p < (2::rat) powi ?bp"
  proof -
    have "(of_int p :: rat) < of_int (2 ^ nat ?bp)" using p2 by (simp only: of_int_less_iff)
    moreover have "(2::rat) powi ?bp = 2 ^ nat ?bp"
      using bp by (simp add: power_int_def)
    ultimately show ?thesis by simp
  qed
  have Q1: "(2::rat) powi (?bq - 1) \<le> of_int q"
  proof -
    have "(of_int (2 ^ nat (?bq - 1)) :: rat) \<le> of_int q" using q1 by (simp only: of_int_le_iff)
    moreover have "(2::rat) powi (?bq - 1) = 2 ^ nat (?bq - 1)"
      using bq by (simp add: power_int_def)
    ultimately show ?thesis by simp
  qed
  have Q2: "of_int q < (2::rat) powi ?bq"
  proof -
    have "(of_int q :: rat) < of_int (2 ^ nat ?bq)" using q2 by (simp only: of_int_less_iff)
    moreover have "(2::rat) powi ?bq = 2 ^ nat ?bq"
      using bq by (simp add: power_int_def)
    ultimately show ?thesis by simp
  qed
  have qr: "(0::rat) < of_int q" using q by simp
  have upper: "x < 2 powi (?e + 1)"
  proof -
    have "(2::rat) powi (?e + 1) * 2 powi (?bq - 1) = 2 powi ?bp"
      by (simp add: power_int_add [symmetric])
    moreover have "(2::rat) powi (?e + 1) * 2 powi (?bq - 1) \<le> 2 powi (?e + 1) * of_int q"
      using Q1 by (intro mult_left_mono) simp_all
    ultimately have "of_int p < (2::rat) powi (?e + 1) * of_int q" using P2 by linarith
    then show ?thesis unfolding x using qr by (simp add: divide_less_eq)
  qed
  have lower: "2 powi (?e - 1) \<le> x"
  proof -
    have "(2::rat) powi (?e - 1) * 2 powi ?bq = 2 powi (?bp - 1)"
      by (simp add: power_int_add [symmetric])
    moreover have "(2::rat) powi (?e - 1) * of_int q \<le> 2 powi (?e - 1) * 2 powi ?bq"
      using Q2 by (intro mult_left_mono) simp_all
    ultimately have "(2::rat) powi (?e - 1) * of_int q \<le> of_int p" using P1 by linarith
    then show ?thesis unfolding x using qr by (simp add: le_divide_eq)
  qed
  have ex: "expo x = (if 2 powi ?e \<le> x then ?e else ?e - 1)"
    using assms pq by (simp add: expo_def Let_def)
  show ?thesis
  proof (cases "2 powi ?e \<le> x")
    case True
    then show ?thesis using ex upper by simp
  next
    case False
    then show ?thesis using ex lower by simp
  qed
qed

lemma expo_eq:
  assumes "(2::rat) powi e \<le> x" "x < 2 powi (e + 1)"
  shows "expo x = e"
proof -
  have "(0::rat) < 2 powi e" by simp
  then have "0 < x" using assms(1) by linarith
  from expo_bounds [OF this] assms show ?thesis
    by (intro binade_unique [of "expo x" x e]) simp_all
qed

lemma rne_near:
  assumes "\<bar>y - of_int k\<bar> < 1/2"
  shows "rne y = k"
proof -
  from assms have "y - of_int k < 1/2 \<and> - (y - of_int k) < 1/2"
    by (simp only: abs_less_iff)
  then have a: "y - of_int k < 1/2" "of_int k - y < 1/2"
    by linarith+
  have "\<lfloor>y\<rfloor> = k \<or> \<lfloor>y\<rfloor> = k - 1"
  proof -
    have fl: "of_int \<lfloor>y\<rfloor> \<le> y" "y < of_int \<lfloor>y\<rfloor> + 1" by linarith+
    have "(of_int (k - 1) :: rat) < of_int (\<lfloor>y\<rfloor> + 1)"
      using a fl by (simp only: of_int_add of_int_diff of_int_1; linarith)
    then have 1: "k - 1 < \<lfloor>y\<rfloor> + 1" by (simp only: of_int_less_iff)
    have "(of_int \<lfloor>y\<rfloor> :: rat) < of_int (k + 1)"
      using a fl by (simp only: of_int_add of_int_diff of_int_1; linarith)
    then have 2: "\<lfloor>y\<rfloor> < k + 1" by (simp only: of_int_less_iff)
    from 1 2 show ?thesis by linarith
  qed
  then show ?thesis
  proof
    assume f: "\<lfloor>y\<rfloor> = k"
    then have "y - of_int \<lfloor>y\<rfloor> < 1/2" using a by (simp only:)
    then show ?thesis using f by (simp add: rne_def Let_def)
  next
    assume f: "\<lfloor>y\<rfloor> = k - 1"
    then have "1/2 < y - of_int \<lfloor>y\<rfloor>"
      using a by (simp only: of_int_diff of_int_1; linarith)
    then show ?thesis using f by (simp add: rne_def Let_def)
  qed
qed

lemma rne_error: "\<bar>of_int (rne y) - y\<bar> \<le> 1/2"
proof -
  have "of_int \<lfloor>y\<rfloor> \<le> y" "y < of_int \<lfloor>y\<rfloor> + 1" by linarith+
  then show ?thesis
    by (auto simp: rne_def Let_def)
qed

text \<open>The double nearest to one tenth, as a check of the rounding.\<close>

lemma round_double_tenth: "round_double (1 / 10) = 3602879701896397 / 36028797018963968"
  by code_simp

lemma round_double_binade:
  assumes "(2::rat) powi e \<le> x" "x < 2 powi (e + 1)"
  shows "round_double x = of_int (rne (x * 2 powi (52 - e))) / 2 powi (52 - e)"
proof -
  have "(0::rat) < 2 powi e" by simp
  then have x: "x \<noteq> 0" using assms(1) by linarith
  have "(2::rat) powi (e - 52) = 1 / 2 powi (52 - e)"
    using power_int_minus_divide [of "2::rat" "52 - e"] by simp
  then show ?thesis
    using x by (simp add: round_double_def expo_eq [OF assms] Let_def)
qed

subsection \<open>The table index is the red value\<close>

lemma heat_index_binade:
  fixes r j :: nat
  assumes j: "j \<le> 7" and lo: "2 ^ j \<le> r" and hi: "r < 2 ^ (j + 1)" and r255: "r < 255"
  shows "heat_index 256 r = int r"
proof -
  define R :: rat where "R = of_nat r"
  define P :: rat where "P = 2 ^ j"
  define S :: rat where "S = 2 ^ (60 - j)"
  define T :: rat where "T = 2 ^ (52 - j)"
  define U :: rat where "U = 2 ^ (53 - j)"
  have S0: "0 < S" and T0: "0 < T" and U0: "0 < U" and P1: "1 \<le> P"
    by (simp_all add: S_def T_def U_def P_def)
  have SP: "S * P = 2 ^ 60"
    using j by (simp add: S_def P_def power_add [symmetric])
  have ST: "S = 256 * T"
  proof -
    have "60 - j = 8 + (52 - j)" using j by simp
    then show ?thesis unfolding S_def T_def by (simp only: power_add) simp
  qed
  have SU: "S = 128 * U"
  proof -
    have "60 - j = 7 + (53 - j)" using j by simp
    then show ?thesis unfolding S_def U_def by (simp only: power_add) simp
  qed
  have UP: "U * P = 2 ^ 53"
    using j by (simp add: U_def P_def power_add [symmetric])
  have Sbig: "2 ^ 53 \<le> S"
    unfolding S_def using j by (intro power_increasing) simp_all
  have Pcases: "P \<le> 64 \<or> P = 128"
  proof (cases "j = 7")
    case True
    then show ?thesis by (simp add: P_def)
  next
    case False
    then have "j \<le> 6" using j by simp
    then have "(2::rat) ^ j \<le> 2 ^ 6" by (intro power_increasing) simp_all
    then show ?thesis by (simp add: P_def)
  qed
  have RP: "P \<le> R"
  proof -
    have "(of_nat (2 ^ j) :: rat) \<le> of_nat r" using lo by (simp only: of_nat_le_iff)
    then show ?thesis by (simp add: R_def P_def)
  qed
  have R2P: "R \<le> 2 * P - 1"
  proof -
    have "r + 1 \<le> 2 ^ (j + 1)" using hi by simp
    then have "(of_nat (r + 1) :: rat) \<le> of_nat (2 ^ (j + 1))" by (simp only: of_nat_le_iff)
    then show ?thesis by (simp add: R_def P_def)
  qed
  have R254: "R \<le> 254"
  proof -
    have "r \<le> 254" using r255 by simp
    then have "(of_nat r :: rat) \<le> of_nat 254" by (simp only: of_nat_le_iff)
    then show ?thesis by (simp add: R_def)
  qed
  \<comment> \<open>the quotient\<close>
  define x where "x = R / 255"
  have pw1: "(2::rat) powi (int j - 8) = P / 256"
    by (simp add: power_int_diff P_def)
  have pw2: "(2::rat) powi (int j - 8 + 1) = P / 128"
  proof -
    have "int j - 8 + 1 = int j - 7" by simp
    then show ?thesis by (simp add: power_int_diff P_def)
  qed
  have xlo: "2 powi (int j - 8) \<le> x"
    unfolding pw1 x_def using RP P1 by simp
  have xhi: "x < 2 powi (int j - 8 + 1)"
    unfolding pw2 x_def using R2P R254 Pcases by auto
  have pwS: "(2::rat) powi (52 - (int j - 8)) = S"
  proof -
    have "52 - (int j - 8) = int (60 - j)" using j by simp
    then show ?thesis by (simp only: power_int_of_nat S_def)
  qed
  define A where "A = x * S"
  define m where "m = rne A"
  define E where "E = of_int m - A"
  have E: "\<bar>E\<bar> \<le> 1/2" unfolding E_def m_def by (rule rne_error)
  have q: "round_double x = of_int m / S"
    using round_double_binade [OF xlo xhi, unfolded pwS] by (simp add: m_def A_def)
  have hv: "heat_value r = of_int m / S"
    by (simp add: heat_value_def js_div_def q [unfolded x_def R_def])
  define y where "y = of_int m / S * 255"
  have hi_eq: "heat_index 256 r = \<lfloor>round_double y\<rfloor>"
    by (simp add: heat_index_def hv js_mul_def Math_floor_def y_def)
  have m_eq: "of_int m = A + E" by (simp add: E_def)
  have A255: "A * 255 = R * S" by (simp add: A_def x_def)
  have yR: "(y - R) * S = 255 * E"
  proof -
    have "y * S = of_int m * 255" using S0 by (simp add: y_def)
    also have "\<dots> = A * 255 + 255 * E" by (simp add: m_eq algebra_simps)
    finally show ?thesis using A255 by (simp add: algebra_simps)
  qed
  show ?thesis
  proof (cases "R = P")
    case False
    then have RP1: "P + 1 \<le> R"
    proof -
      have "r \<noteq> 2 ^ j" using False by (auto simp: R_def P_def)
      then have "2 ^ j + 1 \<le> r" using lo by simp
      then have "(of_nat (2 ^ j + 1) :: rat) \<le> of_nat r" by (simp only: of_nat_le_iff)
      then show ?thesis by (simp add: R_def P_def)
    qed
    have yT: "y * T - R * T = 255 * E / 256"
    proof -
      have "(y - R) * T * 256 = 255 * E" using yR ST by (simp add: algebra_simps)
      then show ?thesis by (simp add: algebra_simps)
    qed
    have small: "\<bar>y - R\<bar> \<le> 1/2"
    proof -
      have "\<bar>y - R\<bar> * S = \<bar>(y - R) * S\<bar>"
        using S0 by (simp add: abs_mult)
      also have "\<dots> = 255 * \<bar>E\<bar>"
        unfolding yR by (simp add: abs_mult)
      finally have "\<bar>y - R\<bar> * S \<le> 128" using E by simp
      moreover have "\<bar>y - R\<bar> * 2 ^ 53 \<le> \<bar>y - R\<bar> * S"
        using Sbig by (intro mult_left_mono) simp_all
      ultimately show ?thesis by simp
    qed
    from small have "y - R \<le> 1/2 \<and> - (y - R) \<le> 1/2"
      by (simp only: abs_le_iff)
    then have near: "R - 1/2 \<le> y" "y \<le> R + 1/2"
      by linarith+
    have "(2::rat) powi (int j) = P" by (simp add: P_def)
    then have ylo: "2 powi (int j) \<le> y"
      using near RP1 by linarith
    have yhi: "y < 2 powi (int j + 1)"
    proof -
      have "(2::rat) powi (int j + 1) = 2 * P"
        by (simp add: power_int_add P_def)
      then show ?thesis using near R2P by linarith
    qed
    have pwT: "(2::rat) powi (52 - int j) = T"
    proof -
      have "52 - int j = int (52 - j)" using j by simp
      then show ?thesis by (simp only: power_int_of_nat T_def)
    qed
    define K :: int where "K = int r * 2 ^ (52 - j)"
    have K: "of_int K = R * T" by (simp add: K_def R_def T_def)
    have "\<bar>y * T - of_int K\<bar> < 1/2"
      unfolding K yT using E by (simp add: abs_mult)
    then have "rne (y * T) = K" by (rule rne_near)
    then have "round_double y = of_int K / T"
      using round_double_binade [OF ylo yhi, unfolded pwT] by simp
    also have "\<dots> = R" using T0 by (simp add: K)
    finally show ?thesis by (simp add: hi_eq R_def)
  next
    case True
    have A: "A = 2 ^ 60 / 255"
      using SP True by (simp add: A_def x_def mult.commute)
    have "\<bar>A - of_int 4521260802379792\<bar> < 1/2" unfolding A by simp
    then have m: "m = 4521260802379792" unfolding m_def by (rule rne_near)
    have yS: "y * S = 2 ^ 60 - 16"
      using S0 by (simp add: y_def m)
    have yU: "y * U = 2 ^ 53 - 1/8"
    proof -
      have "y * U = (y * S) / 128" using SU by simp
      then show ?thesis unfolding yS by simp
    qed
    have yP: "y = P - 16 / S"
    proof -
      have "(P - 16 / S) * S = 2 ^ 60 - 16" using S0 SP by (simp add: algebra_simps)
      then have "y * S = (P - 16 / S) * S" using yS by simp
      then show ?thesis using S0 by simp
    qed
    have tiny: "16 / S \<le> 1/2" "0 < 16 / S"
    proof -
      have "16 / S \<le> 16 / 2 ^ 53" using Sbig by (intro divide_left_mono) simp_all
      then show "16 / S \<le> 1/2" by simp
      show "0 < 16 / S" using S0 by simp
    qed
    have pwa: "(2::rat) powi (int j - 1) = P / 2"
      by (simp add: power_int_diff P_def)
    define d where "d = 16 / S"
    have yd: "y = P - d" and d: "d \<le> 1/2" "0 < d"
      using yP tiny by (simp_all add: d_def)
    have ylo: "2 powi (int j - 1) \<le> y"
      unfolding pwa yd using d P1 by linarith
    have "(2::rat) powi (int j - 1 + 1) = P" by (simp add: P_def)
    then have yhi: "y < 2 powi (int j - 1 + 1)"
      unfolding yd using d by linarith
    have pwU: "(2::rat) powi (52 - (int j - 1)) = U"
    proof -
      have "52 - (int j - 1) = int (53 - j)" using j by simp
      then show ?thesis by (simp only: power_int_of_nat U_def)
    qed
    have "\<bar>y * U - of_int (2 ^ 53)\<bar> < 1/2" unfolding yU by simp
    then have "rne (y * U) = 2 ^ 53" by (rule rne_near)
    then have "round_double y = 2 ^ 53 / U"
      using round_double_binade [OF ylo yhi, unfolded pwU] by simp
    also have "\<dots> = P" using UP U0 by (simp add: field_simps)
    finally have "round_double y = of_nat r" using True by (simp add: R_def)
    then show ?thesis by (simp add: hi_eq)
  qed
qed

lemma bit_length_cases:
  fixes r :: nat
  assumes "0 < r" "r < 256"
  shows "\<exists>j\<le>7. 2 ^ j \<le> r \<and> r < 2 ^ (j + 1)"
proof -
  consider "r < 2" | "2 \<le> r \<and> r < 4" | "4 \<le> r \<and> r < 8" | "8 \<le> r \<and> r < 16"
    | "16 \<le> r \<and> r < 32" | "32 \<le> r \<and> r < 64" | "64 \<le> r \<and> r < 128" | "128 \<le> r"
    by linarith
  then show ?thesis
  proof cases
    case 1 then show ?thesis using assms by (intro exI [of _ 0]) simp
  next
    case 2 then show ?thesis by (intro exI [of _ 1]) simp
  next
    case 3 then show ?thesis by (intro exI [of _ 2]) simp
  next
    case 4 then show ?thesis by (intro exI [of _ 3]) simp
  next
    case 5 then show ?thesis by (intro exI [of _ 4]) simp
  next
    case 6 then show ?thesis by (intro exI [of _ 5]) simp
  next
    case 7 then show ?thesis by (intro exI [of _ 6]) simp
  next
    case 8 then show ?thesis using assms by (intro exI [of _ 7]) simp
  qed
qed

lemma round_double_int:
  assumes "(2::rat) powi e \<le> of_int k" "of_int k < (2::rat) powi (e + 1)" "e \<le> 52"
  shows "round_double (of_int k) = of_int k"
proof -
  have pw: "(2::rat) powi (52 - e) = 2 ^ nat (52 - e)"
    using assms(3) by (simp add: power_int_def)
  have eq: "of_int k * (2::rat) powi (52 - e) = of_int (k * 2 ^ nat (52 - e))"
    unfolding pw by simp
  have "rne (of_int (k * 2 ^ nat (52 - e))) = k * 2 ^ nat (52 - e)"
    by (rule rne_near) simp
  then have "round_double (of_int k) = of_int (k * 2 ^ nat (52 - e)) / 2 ^ nat (52 - e)"
    using round_double_binade [OF assms(1,2)] unfolding eq pw by simp
  then show ?thesis by simp
qed

lemma heat_index_255: "heat_index 256 255 = 255"
proof -
  have one: "round_double 1 = 1"
    using round_double_int [of 0 1] by simp
  have "round_double 255 = 255"
    using round_double_int [of 7 255] by simp
  then show ?thesis
    by (simp add: heat_index_def heat_value_def js_div_def js_mul_def Math_floor_def one)
qed

lemma heat_index_exact:
  assumes "r < 256"
  shows "heat_index 256 r = int r"
proof -
  consider "r = 0" | "r = 255" | "0 < r" "r < 255" using assms by linarith
  then show ?thesis
  proof cases
    case 1
    then show ?thesis
      by (simp add: heat_index_def heat_value_def js_div_def js_mul_def round_double_def
          Math_floor_def)
  next
    case 2
    then show ?thesis by (simp add: heat_index_255)
  next
    case 3
    then obtain j where "j \<le> 7" "2 ^ j \<le> r" "r < 2 ^ (j + 1)"
      using bit_length_cases [of r] by auto
    then show ?thesis using 3 by (intro heat_index_binade [of j])
  qed
qed

lemma rne_le:
  assumes "y \<le> of_int k"
  shows "rne y \<le> k"
proof -
  from rne_error [of y] have "of_int (rne y) - y \<le> 1/2"
    by (simp only: abs_le_iff)
  then have "(of_int (rne y) :: rat) < of_int (k + 1)"
    using assms by (simp only: of_int_add of_int_1; linarith)
  then have "rne y < k + 1" by (simp only: of_int_less_iff)
  then show ?thesis by simp
qed

lemma rne_ge:
  assumes "of_int k \<le> y"
  shows "k \<le> rne y"
proof -
  from rne_error [of y] have "- (of_int (rne y) - y) \<le> 1/2"
    by (simp only: abs_le_iff)
  then have "(of_int (k - 1) :: rat) < of_int (rne y)"
    using assms by (simp only: of_int_diff of_int_1; linarith)
  then have "k - 1 < rne y" by (simp only: of_int_less_iff)
  then show ?thesis by simp
qed

lemma round_double_binade_bounds:
  assumes "(2::rat) powi e \<le> x" "x < 2 powi (e + 1)"
  shows "2 powi e \<le> round_double x \<and> round_double x \<le> 2 powi (e + 1)"
proof -
  define s :: rat where "s = 2 powi (52 - e)"
  have s: "0 < s" by (simp add: s_def)
  have lo: "(2::rat) powi e * s = of_int (2 ^ 52)"
    by (simp add: s_def power_int_add [symmetric])
  have hi: "(2::rat) powi (e + 1) * s = of_int (2 ^ 53)"
    by (simp add: s_def power_int_add [symmetric])
  have rd: "round_double x = of_int (rne (x * s)) / s"
    using round_double_binade [OF assms] by (simp add: s_def)
  have "of_int (2 ^ 52) \<le> x * s"
    unfolding lo [symmetric] using assms(1) s by (intro mult_right_mono) simp_all
  then have "2 ^ 52 \<le> rne (x * s)" by (rule rne_ge)
  then have "(of_int (2 ^ 52) :: rat) \<le> of_int (rne (x * s))" by (simp only: of_int_le_iff)
  then have 1: "2 powi e * s \<le> of_int (rne (x * s))" by (simp only: lo)
  have "x * s \<le> of_int (2 ^ 53)"
    unfolding hi [symmetric] using assms(2) s by (intro mult_right_mono) simp_all
  then have "rne (x * s) \<le> 2 ^ 53" by (rule rne_le)
  then have "(of_int (rne (x * s)) :: rat) \<le> of_int (2 ^ 53)" by (simp only: of_int_le_iff)
  then have 2: "of_int (rne (x * s)) \<le> 2 powi (e + 1) * s" by (simp only: hi)
  show ?thesis
    unfolding rd using 1 2 s by (simp add: le_divide_eq divide_le_eq)
qed

lemma heat_value_range:
  assumes "r < 256"
  shows "0 \<le> heat_value r \<and> heat_value r \<le> 1"
proof -
  consider "r = 0" | "r = 255" | "0 < r" "r < 255" using assms by linarith
  then show ?thesis
  proof cases
    case 1
    then show ?thesis by (simp add: heat_value_def js_div_def round_double_def)
  next
    case 2
    have "round_double 1 = 1" using round_double_int [of 0 1] by simp
    then show ?thesis using 2 by (simp add: heat_value_def js_div_def)
  next
    case 3
    define x :: rat where "x = of_nat r / 255"
    have "(of_nat r :: rat) < of_nat 255" using 3 by (simp only: of_nat_less_iff)
    then have x1: "x < 1" by (simp add: x_def)
    have x0: "0 < x" using 3 by (simp add: x_def)
    define e where "e = expo x"
    from expo_bounds [OF x0] have b: "2 powi e \<le> x" "x < 2 powi (e + 1)"
      by (simp_all add: e_def)
    have "(2::rat) powi e < 2 powi 0" using b(1) x1 by simp
    then have "e < 0" by (rule powi2_less_imp)
    then have le1: "(2::rat) powi (e + 1) \<le> 2 powi 0"
      by (intro power_int_increasing) simp_all
    have pos: "(0::rat) < 2 powi e" by simp
    from round_double_binade_bounds [OF b] pos have "0 \<le> round_double x"
      by linarith
    moreover from round_double_binade_bounds [OF b] le1 have "round_double x \<le> 1"
      by simp
    ultimately show ?thesis
      by (simp add: heat_value_def js_div_def x_def [symmetric])
  qed
qed

section \<open>The heat map in closed form\<close>

lemma pixel_bytes_roundtrip:
  assumes "a < 256" "b < 256" "c < 256" "d < 256"
  shows "pixel_at (pixel_bytes (a * 256 ^ 3 + b * 256 ^ 2 + c * 256 + d)) 0 = RGBA a b c d"
proof -
  define i where "i = a * 256 ^ 3 + b * 256 ^ 2 + c * 256 + d"
  have d24: "i div 2 ^ 24 = a" using assms unfolding i_def by (simp; arith)
  have d16: "i div 2 ^ 16 = a * 256 + b" using assms unfolding i_def by (simp; arith)
  have d8: "i div 2 ^ 8 = (a * 256 + b) * 256 + c" using assms unfolding i_def by (simp; arith)
  have d0: "i = ((a * 256 + b) * 256 + c) * 256 + d" unfolding i_def by simp
  have 1: "(i div 2 ^ 24) mod 256 = a" unfolding d24 using assms by simp
  have 2: "(i div 2 ^ 16) mod 256 = b" using assms by (simp only: d16 mod_mult_self3 mod_less)
  have 3: "(i div 2 ^ 8) mod 256 = c" using assms by (simp only: d8 mod_mult_self3 mod_less)
  have 4: "i mod 256 = d" using assms by (subst d0) (simp only: mod_mult_self3 mod_less)
  have u: "unat (of_nat n :: 8 word) = n mod 256" for n
    by (simp add: unat_of_nat)
  have "pixel_at (pixel_bytes i) 0 = RGBA a b c d"
    using 1 2 3 4 by (simp add: pixel_at_def pixel_bytes_def u)
  then show ?thesis by (simp only: i_def)
qed

lemma heat_pixel_valid:
  assumes "valid_table cm" "red p < 256"
  shows "heat_pixel cm p = Inr (hex_of_stop (cm ! red p))"
    and "pixel_at (pixel_bytes (hex_of_stop (cm ! red p))) 0 = stop_pixel (cm ! red p)"
proof -
  have len: "length cm = 256" using assms(1) by (simp add: valid_table_def)
  have idx: "heat_index (length cm) (red p) = int (red p)"
    unfolding len by (rule heat_index_exact [OF assms(2)])
  have look: "lookup cm (int (red p)) = Some (cm ! red p)"
    using assms(2) len by (simp add: lookup_def)
  obtain c0 c1 c2 c3 where c: "cm ! red p = (c0, c1, c2, c3)"
    by (cases "cm ! red p")
  have "cm ! red p \<in> set cm" using assms(2) len by simp
  then have "valid_stop (cm ! red p)"
    using assms(1) by (simp add: valid_table_def list_all_iff)
  then have v: "0 \<le> c0" "c0 \<le> 255" "0 \<le> c1" "c1 \<le> 255" "0 \<le> c2" "c2 \<le> 255"
    by (simp_all add: valid_stop_def c)
  show "heat_pixel cm p = Inr (hex_of_stop (cm ! red p))"
    using v by (simp add: heat_pixel_def idx look c rgbaToInt_def hex_of_stop_def)
  have "pixel_at (pixel_bytes (nat c0 * 256 ^ 3 + nat c1 * 256 ^ 2 + nat c2 * 256 + 255)) 0
      = RGBA (nat c0) (nat c1) (nat c2) 255"
    using v by (intro pixel_bytes_roundtrip) simp_all
  then show "pixel_at (pixel_bytes (hex_of_stop (cm ! red p))) 0 = stop_pixel (cm ! red p)"
    by (simp add: c hex_of_stop_def stop_pixel_def)
qed

lemma red_pixel_at_lt: "red (pixel_at buf k) < 256"
  by (simp add: pixel_at_def unat8_lt)

lemma heatmap_pixels:
  assumes "wf_bitmap img" "pkg colormapOptions = Inr cm" "valid_table cm"
  shows "\<exists>out. generateHeatmapImage pkg img = Inr out
      \<and> width out = width img \<and> height out = height img \<and> wf_bitmap out
      \<and> (\<forall>k < width img * height img.
            pixel_at (data out) k = stop_pixel (cm ! red (pixel_at (data img) k)))"
proof -
  let ?n = "width img * height img"
  let ?hexes = "map (\<lambda>k. hex_of_stop (cm ! red (pixel_at (data img) k))) [0..<?n]"
  let ?out = "img\<lparr>data := concat (map pixel_bytes ?hexes)\<rparr>"
  have "collect (\<lambda>k. heat_pixel cm (pixel_at (data img) k)) [0..<?n] = Inr ?hexes"
    by (rule collect_map) (simp add: heat_pixel_valid(1) [OF assms(3) red_pixel_at_lt])
  then have gen: "generateHeatmapImage pkg img = Inr ?out"
    unfolding generateHeatmapImage_wf [OF assms(1)] by (simp add: assms(2))
  have "pixel_at (data ?out) k = stop_pixel (cm ! red (pixel_at (data img) k))" if "k < ?n" for k
    using that pixel_at_concat [of k ?hexes]
    by (simp add: heat_pixel_valid(2) [OF assms(3) red_pixel_at_lt])
  moreover have "wf_bitmap ?out"
    using length_concat_pixel_bytes [of ?hexes] by (simp add: wf_bitmap_def)
  ultimately show ?thesis using gen by auto
qed

lemma valid_hot_entry: "valid_stop (hot_entry k)"
proof -
  consider "k < 77" | "77 \<le> k" "k < 153" | "153 \<le> k" "k < 255" | "255 \<le> k" by linarith
  then show ?thesis
  proof cases
    case 1
    then show ?thesis by (simp add: hot_entry_def valid_stop_def round_div_def; arith)
  next
    case 2
    then show ?thesis by (simp add: hot_entry_def valid_stop_def round_div_def; arith)
  next
    case 3
    then show ?thesis by (simp add: hot_entry_def valid_stop_def round_div_def; arith)
  next
    case 4
    then show ?thesis by (simp add: hot_entry_def valid_stop_def)
  qed
qed

lemma valid_table_hot256: "valid_table hot256"
  by (simp add: valid_table_def hot256_def list_all_iff valid_hot_entry)

lemma hot_pkg_options: "hot_pkg colormapOptions = Inr hot256"
  by (simp add: hot_pkg_def colormapOptions_def)

section \<open>Further claims about generateHeatmapImage\<close>

lemma wf_px1: "wf_bitmap (px1 r g b a)"
  by (simp add: wf_bitmap_def px1_def)

lemma collect_error: "collect f xs = Inl e \<Longrightarrow> \<exists>x \<in> set xs. f x = Inl e"
  by (induction xs) (auto split: sum.splits)

lemma heat_pixel_error: "heat_pixel cm p = Inl e \<Longrightarrow> e = TypeError \<or> e = JimpError"
  by (auto simp: heat_pixel_def rgbaToInt_def split: option.splits if_splits)

lemma generateHeatmapImage_error:
  assumes "wf_bitmap img" "generateHeatmapImage pkg img = Inl e"
  shows "pkg colormapOptions = Inl e \<or> e = TypeError \<or> e = JimpError"
proof (cases "pkg colormapOptions")
  case (Inl e')
  then show ?thesis
    using assms(2) unfolding generateHeatmapImage_wf [OF assms(1)] by simp
next
  case (Inr cm)
  then have "collect (\<lambda>k. heat_pixel cm (pixel_at (data img) k)) [0..<width img * height img] = Inl e"
    using assms(2) unfolding generateHeatmapImage_wf [OF assms(1)]
    by (simp split: sum.splits)
  then obtain k where "heat_pixel cm (pixel_at (data img) k) = Inl e"
    using collect_error by fastforce
  then show ?thesis using heat_pixel_error by blast
qed

text \<open>
  Claim C9. For every 8-bit red value the table index
  \<open>Math.floor((r / 255) * (256 - 1))\<close> lies in 0..255, so the lookup in the 256-entry
  table is in bounds for every pixel, and every output pixel is written with alpha 255.
  The index is computed in double precision; it is the red value itself.
\<close>

theorem table_index_in_bounds_alpha_255:
  fixes r :: "8 word"
  assumes "wf_bitmap img" and "pkg colormapOptions = Inr colorMap" and "valid_table colorMap"
  shows "0 \<le> heat_index 256 (unat r) \<and> heat_index 256 (unat r) \<le> 255
    \<and> lookup colorMap (heat_index (length colorMap) (unat r)) = Some (colorMap ! unat r)
    \<and> (\<exists>out. generateHeatmapImage pkg img = Inr out
          \<and> (\<forall>k < width img * height img. alpha (pixel_at (data out) k) = 255))"
proof -
  have r: "unat r < 256" by (rule unat8_lt)
  have len: "length colorMap = 256" using assms(3) by (simp add: valid_table_def)
  have idx: "heat_index 256 (unat r) = int (unat r)" by (rule heat_index_exact [OF r])
  have look: "lookup colorMap (heat_index (length colorMap) (unat r)) = Some (colorMap ! unat r)"
    using r uint_bounded [of r] by (simp add: len idx lookup_def)
  from heatmap_pixels [where pkg = pkg, OF assms] obtain out where
    out: "generateHeatmapImage pkg img = Inr out"
    and px: "\<forall>k < width img * height img.
      pixel_at (data out) k = stop_pixel (colorMap ! red (pixel_at (data img) k))"
    by blast
  have "alpha (stop_pixel c) = 255" for c
    by (cases c) (simp add: stop_pixel_def)
  with px have "\<forall>k < width img * height img. alpha (pixel_at (data out) k) = 255"
    by simp
  moreover have "0 \<le> heat_index 256 (unat r) \<and> heat_index 256 (unat r) \<le> 255"
    unfolding idx using r by linarith
  ultimately show ?thesis using out look by blast
qed

theorem table_index_in_bounds_alpha_255_witness:
  "wf_bitmap (px1 200 3 4 5) \<and> hot_pkg colormapOptions = Inr hot256 \<and> valid_table hot256
   \<and> 0 \<le> heat_index 256 (unat (200 :: 8 word)) \<and> heat_index 256 (unat (200 :: 8 word)) \<le> 255
   \<and> lookup hot256 (heat_index (length hot256) (unat (200 :: 8 word))) = Some (hot256 ! 200)
   \<and> (\<exists>out. generateHeatmapImage hot_pkg (px1 200 3 4 5) = Inr out
         \<and> alpha (pixel_at (data out) 0) = 255)"
proof -
  have w: "width (px1 200 3 4 5) * height (px1 200 3 4 5) = 1" by (simp add: px1_def)
  show ?thesis
    using table_index_in_bounds_alpha_255 [of "px1 200 3 4 5" hot_pkg hot256 200,
        OF wf_px1 hot_pkg_options valid_table_hot256]
    by (auto simp: w wf_px1 hot_pkg_options valid_table_hot256)
qed

text \<open>
  Claim C5. The map operation is deterministic. Two calls on identical image data give
  identical output, and the colour of an output pixel is a function of the pixel's value
  alone: pixels holding the same value get the same colour, at any position and in any
  two frames rendered with the same package (the table is requested with constant
  options, so it is the same table in every call).
\<close>

theorem colormap_determinism:
  assumes "wf_bitmap img1" and "wf_bitmap img2"
    and "generateHeatmapImage pkg img1 = Inr out1"
    and "generateHeatmapImage pkg img2 = Inr out2"
  shows "(img1 = img2 \<longrightarrow> out1 = out2)
    \<and> (\<forall>k1 k2. k1 < width img1 * height img1 \<and> k2 < width img2 * height img2
          \<and> red (pixel_at (data img1) k1) = red (pixel_at (data img2) k2)
        \<longrightarrow> pixel_at (data out1) k1 = pixel_at (data out2) k2)"
proof (intro conjI allI impI)
  assume "img1 = img2"
  then show "out1 = out2" using assms(3,4) by simp
next
  fix k1 k2
  assume h: "k1 < width img1 * height img1 \<and> k2 < width img2 * height img2
    \<and> red (pixel_at (data img1) k1) = red (pixel_at (data img2) k2)"
  from generateHeatmapImage_pixel [OF assms(1,3), of k1] h obtain cm1 hex1 where
    1: "pkg colormapOptions = Inr cm1" "heat_pixel cm1 (pixel_at (data img1) k1) = Inr hex1"
      "pixel_at (data out1) k1 = pixel_at (pixel_bytes hex1) 0"
    by blast
  from generateHeatmapImage_pixel [OF assms(2,4), of k2] h obtain cm2 hex2 where
    2: "pkg colormapOptions = Inr cm2" "heat_pixel cm2 (pixel_at (data img2) k2) = Inr hex2"
      "pixel_at (data out2) k2 = pixel_at (pixel_bytes hex2) 0"
    by blast
  have "cm1 = cm2" using 1(1) 2(1) by simp
  moreover have "heat_pixel cm1 (pixel_at (data img1) k1) = heat_pixel cm1 (pixel_at (data img2) k2)"
    using h by (intro heat_pixel_red) simp
  ultimately have "hex1 = hex2" using 1(2) 2(2) by simp
  then show "pixel_at (data out1) k1 = pixel_at (data out2) k2"
    using 1(3) 2(3) by simp
qed

lemma wf_px2: "length bytes = 8 \<Longrightarrow> wf_bitmap (px2 bytes)"
  by (simp add: wf_bitmap_def px2_def)

lemma wf_px2v: "length bytes = 8 \<Longrightarrow> wf_bitmap (px2v bytes)"
  by (simp add: wf_bitmap_def px2v_def)

theorem colormap_determinism_witness:
  "\<exists>out1 out2. generateHeatmapImage hot_pkg (px2 [7, 1, 1, 1, 9, 2, 2, 2]) = Inr out1
     \<and> generateHeatmapImage hot_pkg (px2v [9, 5, 5, 5, 7, 0, 0, 0]) = Inr out2
     \<and> pixel_at (data out1) 0 = pixel_at (data out2) 1"
proof -
  let ?a = "px2 [7, 1, 1, 1, 9, 2, 2, 2]" and ?b = "px2v [9, 5, 5, 5, 7, 0, 0, 0]"
  have wa: "wf_bitmap ?a" by (rule wf_px2) simp
  have wb: "wf_bitmap ?b" by (rule wf_px2v) simp
  from heatmap_pixels [where pkg = hot_pkg, OF wa hot_pkg_options valid_table_hot256]
  obtain out1 where 1: "generateHeatmapImage hot_pkg ?a = Inr out1" by blast
  from heatmap_pixels [where pkg = hot_pkg, OF wb hot_pkg_options valid_table_hot256]
  obtain out2 where 2: "generateHeatmapImage hot_pkg ?b = Inr out2" by blast
  have "0 < width ?a * height ?a \<and> 1 < width ?b * height ?b
      \<and> red (pixel_at (data ?a) 0) = red (pixel_at (data ?b) 1)"
    by (simp add: px2_def px2v_def pixel_at_def)
  with colormap_determinism [OF wa wb 1 2]
  have "pixel_at (data out1) 0 = pixel_at (data out2) 1" by blast
  with 1 2 show ?thesis by blast
qed

text \<open>
  Claim C7 says that the input pixel data is unchanged after the call and that the
  returned frame is a new object. The function writes through the reference it is given
  and returns that reference: on a one-pixel image the object at reference 0 holds other
  bytes after the call, and the reference returned is 0.
\<close>

theorem heatmap_returns_same_object_counterexample:
  "generateHeatmapImage_ref hot_pkg (Map.empty(0 \<mapsto> px1 0 0 0 0)) 0
     = Inr (Map.empty(0 \<mapsto> px1 0 0 0 255), 0)
   \<and> px1 0 0 0 255 \<noteq> px1 0 0 0 0"
proof
  show "generateHeatmapImage_ref hot_pkg (Map.empty(0 \<mapsto> px1 0 0 0 0)) 0
      = Inr (Map.empty(0 \<mapsto> px1 0 0 0 255), 0)"
    by (simp add: generateHeatmapImage_ref_def black_pixel)
  show "px1 0 0 0 255 \<noteq> px1 0 0 0 0"
    by (simp add: px1_def)
qed

text \<open>
  Claim C7, amended. \<open>generateHeatmapImage\<close> overwrites the image it is given and
  returns that same object: the reference returned is the argument, the object behind it
  keeps its dimensions and holds the heat colour of every pixel afterwards, and no other
  object of the store is touched.
\<close>

theorem heatmap_overwrites_in_place:
  assumes "s image_ref = Some img" and "wf_bitmap img"
    and "pkg colormapOptions = Inr colorMap" and "valid_table colorMap"
  shows "\<exists>out. generateHeatmapImage_ref pkg s image_ref = Inr (s(image_ref \<mapsto> out), image_ref)
    \<and> width out = width img \<and> height out = height img
    \<and> (\<forall>k < width img * height img.
          pixel_at (data out) k = stop_pixel (colorMap ! red (pixel_at (data img) k)))"
proof -
  from heatmap_pixels [where pkg = pkg, OF assms(2,3,4)] obtain out where
    out: "generateHeatmapImage pkg img = Inr out"
    and rest: "width out = width img" "height out = height img"
      "\<forall>k < width img * height img.
          pixel_at (data out) k = stop_pixel (colorMap ! red (pixel_at (data img) k))"
    by blast
  have "generateHeatmapImage_ref pkg s image_ref = Inr (s(image_ref \<mapsto> out), image_ref)"
    by (simp add: generateHeatmapImage_ref_def assms(1) out)
  with rest show ?thesis by blast
qed

theorem heatmap_overwrites_in_place_witness:
  "(Map.empty((0::ref) \<mapsto> px1 0 0 0 0)) 0 = Some (px1 0 0 0 0)
   \<and> wf_bitmap (px1 0 0 0 0) \<and> hot_pkg colormapOptions = Inr hot256 \<and> valid_table hot256
   \<and> (\<exists>out. generateHeatmapImage_ref hot_pkg (Map.empty(0 \<mapsto> px1 0 0 0 0)) 0
          = Inr ((Map.empty(0 \<mapsto> px1 0 0 0 0))(0 \<mapsto> out), 0)
        \<and> width out = 1 \<and> height out = 1
        \<and> pixel_at (data out) 0 = stop_pixel (hot256 ! 0))"
proof -
  have 1: "(Map.empty((0::ref) \<mapsto> px1 0 0 0 0)) 0 = Some (px1 0 0 0 0)" by simp
  have d: "width (px1 0 0 0 0) = 1" "height (px1 0 0 0 0) = 1"
    "red (pixel_at (data (px1 0 0 0 0)) 0) = 0"
    by (simp_all add: px1_def pixel_at_def)
  from heatmap_overwrites_in_place [where s = "Map.empty((0::ref) \<mapsto> px1 0 0 0 0)"
      and image_ref = 0 and img = "px1 0 0 0 0" and pkg = hot_pkg and colorMap = hot256,
      OF 1 wf_px1 hot_pkg_options valid_table_hot256]
  obtain out where
    "generateHeatmapImage_ref hot_pkg (Map.empty(0 \<mapsto> px1 0 0 0 0)) 0
          = Inr ((Map.empty(0 \<mapsto> px1 0 0 0 0))(0 \<mapsto> out), 0)"
    "width out = 1" "height out = 1"
    "\<forall>k < 1. pixel_at (data out) k = stop_pixel (hot256 ! red (pixel_at (data (px1 0 0 0 0)) k))"
    unfolding d(1,2) by auto
  then have "generateHeatmapImage_ref hot_pkg (Map.empty(0 \<mapsto> px1 0 0 0 0)) 0
          = Inr ((Map.empty(0 \<mapsto> px1 0 0 0 0))(0 \<mapsto> out), 0)
        \<and> width out = 1 \<and> height out = 1
        \<and> pixel_at (data out) 0 = stop_pixel (hot256 ! 0)"
    using d(3) by simp
  then show ?thesis
    using 1 wf_px1 [of 0 0 0 0] hot_pkg_options valid_table_hot256 by blast
qed

text \<open>
  Claim C4 says that a name outside the supported set makes the map operation fail with
  \<open>UnknownColormap\<close>. The function takes no name: a call that passes
  \<open>nosuchmap\<close> returns a frame.
\<close>

theorem colormap_name_counterexample:
  "map_call hot_pkg (px1 0 0 0 255) ''nosuchmap'' 0 1 = Inr (px1 0 0 0 255)
   \<and> map_call hot_pkg (px1 0 0 0 255) ''nosuchmap'' 0 1 \<noteq> Inl UnknownColormap"
  by (simp add: map_call_def black_pixel)

text \<open>
  Claim C4, amended. \<open>generateHeatmapImage\<close> has no colormap-name parameter. It
  always requests the scale \<open>hot\<close>; a name passed by the caller is dropped, so every
  name gives the result that \<open>hot\<close> gives, and when the package supplies the
  \<open>hot\<close> table no name makes the call fail with \<open>UnknownColormap\<close>.
\<close>

theorem colormap_name_is_fixed:
  assumes "wf_bitmap img" and "pkg colormapOptions = Inr colorMap"
  shows "colormap colormapOptions = ''hot'' \<and> nshades colormapOptions = 256
    \<and> map_call pkg img name vmin vmax = map_call pkg img ''hot'' vmin vmax
    \<and> map_call pkg img name vmin vmax \<noteq> Inl UnknownColormap"
proof -
  have "generateHeatmapImage pkg img \<noteq> Inl UnknownColormap"
  proof
    assume "generateHeatmapImage pkg img = Inl UnknownColormap"
    from generateHeatmapImage_error [OF assms(1) this] assms(2) show False by simp
  qed
  then show ?thesis by (simp add: map_call_def colormapOptions_def)
qed

theorem colormap_name_is_fixed_witness:
  "wf_bitmap (px1 0 0 0 255) \<and> hot_pkg colormapOptions = Inr hot256
   \<and> map_call hot_pkg (px1 0 0 0 255) ''jet'' 0 1 = map_call hot_pkg (px1 0 0 0 255) ''hot'' 0 1
   \<and> map_call hot_pkg (px1 0 0 0 255) ''jet'' 0 1 \<noteq> Inl UnknownColormap"
  using colormap_name_is_fixed [of "px1 0 0 0 255" hot_pkg hot256 "''jet''" 0 1,
      OF wf_px1 hot_pkg_options]
    wf_px1 [of 0 0 0 255] hot_pkg_options
  by blast

subsection \<open>The normalisation range\<close>

lemma heat_value_15: "heat_value 15 \<le> 1/16"
proof -
  have "(2::rat) powi (-5) \<le> 15 / 255" "(15::rat) / 255 < 2 powi (-5 + 1)"
    by (simp_all add: power_int_minus_divide)
  from round_double_binade_bounds [OF this] show ?thesis
    by (simp add: heat_value_def js_div_def power_int_minus_divide)
qed

lemma heat_value_255: "heat_value 255 = 1"
  using round_double_int [of 0 1] by (simp add: heat_value_def js_div_def)

lemma slice_pixel:
  assumes "wf_bitmap img" "k < width img * height img"
  shows "result_pixel (generateHeatmapImage hot_pkg img) k
    = Inr (stop_pixel (hot_entry (red (pixel_at (data img) k))))"
proof -
  from heatmap_pixels [where pkg = hot_pkg, OF assms(1) hot_pkg_options valid_table_hot256]
  obtain out where "generateHeatmapImage hot_pkg img = Inr out"
    "\<forall>k < width img * height img.
      pixel_at (data out) k = stop_pixel (hot256 ! red (pixel_at (data img) k))"
    by blast
  then show ?thesis
    using assms(2) by (simp add: result_pixel_def hot256_nth red_pixel_at_lt)
qed

text \<open>
  Claim C1 says that the parameter of a pixel is
  \<open>clamp((value - vmin) / (vmax - vmin), 0, 1)\<close> for the range passed, and 0 for a
  degenerate range. The function has no range: for value 15 and the range 0..15 the
  specification gives 1 and the code computes 15/255, and the pixel gets table entry 15,
  not the last one; for value 255 and the degenerate range 7..7 the specification gives 0
  and the code computes 1.
\<close>

theorem normalization_range_counterexample:
  "heat_value 15 \<noteq> spec_normalize 15 0 15
   \<and> heat_value 255 \<noteq> spec_normalize 255 7 7
   \<and> result_pixel (map_call hot_pkg (px1 15 0 0 255) ''hot'' 0 15) 0 = Inr (RGBA 45 0 0 255)
   \<and> stop_pixel (last hot256) = RGBA 255 255 255 255"
proof (intro conjI)
  show "heat_value 15 \<noteq> spec_normalize 15 0 15"
    using heat_value_15 by (simp add: spec_normalize_def)
  show "heat_value 255 \<noteq> spec_normalize 255 7 7"
    by (simp add: heat_value_255 spec_normalize_def)
  have "result_pixel (generateHeatmapImage hot_pkg (px1 15 0 0 255)) 0
      = Inr (stop_pixel (hot_entry (red (pixel_at (data (px1 15 0 0 255)) 0))))"
    by (rule slice_pixel [OF wf_px1]) (simp add: px1_def)
  then show "result_pixel (map_call hot_pkg (px1 15 0 0 255) ''hot'' 0 15) 0 = Inr (RGBA 45 0 0 255)"
    by (simp add: map_call_def px1_def pixel_at_def hot_entry_def round_div_def stop_pixel_def)
  show "stop_pixel (last hot256) = RGBA 255 255 255 255"
    by (simp add: hot256_def last_map hot_entry_def stop_pixel_def)
qed

text \<open>
  Claim C1, amended. \<open>generateHeatmapImage\<close> takes no \<open>vmin\<close> and \<open>vmax\<close>: the
  parameter of a pixel with 8-bit red value \<open>r\<close> is \<open>r / 255\<close>, that is
  \<open>clamp((r - 0) / (255 - 0), 0, 1)\<close> rounded to a double, and lies between 0 and 1. The
  range is the constant 0..255, never degenerate, and on a well-formed image with a valid
  256-entry table the call does not raise, whatever further arguments are passed.
\<close>

theorem normalization_is_fixed_range:
  assumes "wf_bitmap img" and "pkg colormapOptions = Inr colorMap" and "valid_table colorMap"
    and "k < width img * height img"
  shows "(\<exists>out. map_call pkg img cmap vmin vmax = Inr out)
    \<and> heat_value (red (pixel_at (data img) k))
        = round_double (spec_normalize (of_nat (red (pixel_at (data img) k))) 0 255)
    \<and> 0 \<le> heat_value (red (pixel_at (data img) k))
    \<and> heat_value (red (pixel_at (data img) k)) \<le> 1"
proof -
  let ?r = "red (pixel_at (data img) k)"
  have r: "?r < 256" by (rule red_pixel_at_lt)
  then have "(of_nat ?r :: rat) \<le> of_nat 255" by (simp only: of_nat_le_iff; simp)
  then have sn: "spec_normalize (of_nat ?r) 0 255 = of_nat ?r / 255"
    by (simp add: spec_normalize_def)
  have "heat_value ?r = round_double (spec_normalize (of_nat ?r) 0 255)"
    unfolding sn by (simp add: heat_value_def js_div_def)
  moreover from heatmap_pixels [where pkg = pkg, OF assms(1,2,3)]
  have "\<exists>out. map_call pkg img cmap vmin vmax = Inr out"
    unfolding map_call_def by blast
  ultimately show ?thesis using heat_value_range [OF r] by simp
qed

theorem normalization_is_fixed_range_witness:
  "wf_bitmap (px1 15 0 0 255) \<and> hot_pkg colormapOptions = Inr hot256 \<and> valid_table hot256
   \<and> (\<exists>out. map_call hot_pkg (px1 15 0 0 255) ''hot'' 0 15 = Inr out)
   \<and> heat_value (red (pixel_at (data (px1 15 0 0 255)) 0))
       = round_double (spec_normalize (of_nat (red (pixel_at (data (px1 15 0 0 255)) 0))) 0 255)
   \<and> 0 \<le> heat_value (red (pixel_at (data (px1 15 0 0 255)) 0))
   \<and> heat_value (red (pixel_at (data (px1 15 0 0 255)) 0)) \<le> 1"
proof -
  have k: "0 < width (px1 15 0 0 255) * height (px1 15 0 0 255)" by (simp add: px1_def)
  show ?thesis
    using normalization_is_fixed_range [of "px1 15 0 0 255" hot_pkg hot256 0 "''hot''" 0 15,
        OF wf_px1 hot_pkg_options valid_table_hot256 k]
    by (simp add: wf_px1 hot_pkg_options valid_table_hot256)
qed

subsection \<open>The scenario of the 4x4 slice\<close>

lemma wf_slice4x4: "wf_bitmap slice4x4"
  by (simp add: wf_bitmap_def slice4x4_def)

lemma wf_ramp4x4: "wf_bitmap ramp4x4"
  by (simp add: wf_bitmap_def ramp4x4_def)

text \<open>
  Claim C3 says that in the slice 0, 1, ..., 15 rendered with \<open>hot\<close>, \<open>vmin = 0\<close> and
  \<open>vmax = 15\<close> the pixel holding 15 has the last stop colour. The range is not a
  parameter of the code: the pixel holding 15 gets table entry 15, which is
  \<open>(45, 0, 0)\<close>, and the last stop is white.
\<close>

theorem hot_scenario_counterexample:
  "red (pixel_at (data slice4x4) 15) = 15
   \<and> result_pixel (map_call hot_pkg slice4x4 ''hot'' 0 15) 15 = Inr (RGBA 45 0 0 255)
   \<and> stop_pixel (last hot256) = RGBA 255 255 255 255"
proof (intro conjI)
  show r: "red (pixel_at (data slice4x4) 15) = 15"
    by (simp add: slice4x4_def pixel_at_def)
  have "result_pixel (generateHeatmapImage hot_pkg slice4x4) 15
      = Inr (stop_pixel (hot_entry (red (pixel_at (data slice4x4) 15))))"
    by (rule slice_pixel [OF wf_slice4x4]) (simp add: slice4x4_def)
  then show "result_pixel (map_call hot_pkg slice4x4 ''hot'' 0 15) 15 = Inr (RGBA 45 0 0 255)"
    unfolding r by (simp add: map_call_def hot_entry_def round_div_def stop_pixel_def)
  show "stop_pixel (last hot256) = RGBA 255 255 255 255"
    by (simp add: hot256_def last_map hot_entry_def stop_pixel_def)
qed

text \<open>
  Claim C3, amended. \<open>generateHeatmapImage\<close> takes no range and always normalises by
  255: in the frame it renders, every pixel has the table entry indexed by its own value
  (with alpha 255). So a pixel holding 0 has the first stop colour of the table and a
  pixel holding 255 has the last; in the slice 0, 1, ..., 15 the pixel holding 15 has
  entry 15, and the slice scaled to 0, 17, ..., 255 has the first stop at its minimum and
  the last stop at its maximum.
\<close>

theorem pixel_gets_entry_of_its_value:
  assumes "wf_bitmap img" and "pkg colormapOptions = Inr colorMap" and "valid_table colorMap"
  shows "\<forall>k < width img * height img.
      result_pixel (generateHeatmapImage pkg img) k
        = Inr (stop_pixel (colorMap ! red (pixel_at (data img) k)))
      \<and> (red (pixel_at (data img) k) = 0 \<longrightarrow>
            result_pixel (generateHeatmapImage pkg img) k = Inr (stop_pixel (hd colorMap)))
      \<and> (red (pixel_at (data img) k) = 255 \<longrightarrow>
            result_pixel (generateHeatmapImage pkg img) k = Inr (stop_pixel (last colorMap)))"
proof (intro allI impI)
  fix k
  assume k: "k < width img * height img"
  from heatmap_pixels [where pkg = pkg, OF assms(1,2,3)]
  obtain out where out: "generateHeatmapImage pkg img = Inr out"
    and px: "\<forall>k < width img * height img.
      pixel_at (data out) k = stop_pixel (colorMap ! red (pixel_at (data img) k))"
    by blast
  have len: "length colorMap = 256" using assms(3) by (simp add: valid_table_def)
  then have ne: "colorMap \<noteq> []" by auto
  have first: "colorMap ! 0 = hd colorMap" using ne by (simp add: hd_conv_nth)
  have last: "colorMap ! 255 = last colorMap" using ne len by (simp add: last_conv_nth)
  have own: "result_pixel (generateHeatmapImage pkg img) k
      = Inr (stop_pixel (colorMap ! red (pixel_at (data img) k)))"
    using px k by (simp add: result_pixel_def out)
  show "result_pixel (generateHeatmapImage pkg img) k
        = Inr (stop_pixel (colorMap ! red (pixel_at (data img) k)))
      \<and> (red (pixel_at (data img) k) = 0 \<longrightarrow>
            result_pixel (generateHeatmapImage pkg img) k = Inr (stop_pixel (hd colorMap)))
      \<and> (red (pixel_at (data img) k) = 255 \<longrightarrow>
            result_pixel (generateHeatmapImage pkg img) k = Inr (stop_pixel (last colorMap)))"
    using own first last by simp
qed

theorem pixel_gets_entry_of_its_value_witness:
  "wf_bitmap slice4x4 \<and> wf_bitmap ramp4x4
   \<and> hot_pkg colormapOptions = Inr hot256 \<and> valid_table hot256
   \<and> red (pixel_at (data slice4x4) 0) = 0 \<and> red (pixel_at (data slice4x4) 15) = 15
   \<and> result_pixel (generateHeatmapImage hot_pkg slice4x4) 0 = Inr (stop_pixel (hd hot256))
   \<and> result_pixel (generateHeatmapImage hot_pkg slice4x4) 15 = Inr (stop_pixel (hot256 ! 15))
   \<and> stop_pixel (hot256 ! 15) = RGBA 45 0 0 255
   \<and> red (pixel_at (data ramp4x4) 0) = 0 \<and> red (pixel_at (data ramp4x4) 15) = 255
   \<and> result_pixel (generateHeatmapImage hot_pkg ramp4x4) 0 = Inr (stop_pixel (hd hot256))
   \<and> result_pixel (generateHeatmapImage hot_pkg ramp4x4) 15 = Inr (stop_pixel (last hot256))"
proof -
  have n: "width slice4x4 * height slice4x4 = 16" "width ramp4x4 * height ramp4x4 = 16"
    by (simp_all add: slice4x4_def ramp4x4_def)
  have s0: "red (pixel_at (data slice4x4) 0) = 0" and s15: "red (pixel_at (data slice4x4) 15) = 15"
    by (simp_all add: slice4x4_def pixel_at_def)
  have r0: "red (pixel_at (data ramp4x4) 0) = 0" and r15: "red (pixel_at (data ramp4x4) 15) = 255"
    by (simp_all add: ramp4x4_def pixel_at_def)
  have e15: "stop_pixel (hot256 ! 15) = RGBA 45 0 0 255"
    by (simp add: hot256_nth hot_entry_def round_div_def stop_pixel_def)
  note S = pixel_gets_entry_of_its_value [where img = slice4x4 and pkg = hot_pkg
      and colorMap = hot256, OF wf_slice4x4 hot_pkg_options valid_table_hot256, unfolded n]
  note R = pixel_gets_entry_of_its_value [where img = ramp4x4 and pkg = hot_pkg
      and colorMap = hot256, OF wf_ramp4x4 hot_pkg_options valid_table_hot256, unfolded n]
  have k: "(0::nat) < 16" "(15::nat) < 16" by simp_all
  have "result_pixel (generateHeatmapImage hot_pkg slice4x4) 0 = Inr (stop_pixel (hd hot256))"
    using S [rule_format, OF k(1)] s0 by blast
  moreover have "result_pixel (generateHeatmapImage hot_pkg slice4x4) 15
      = Inr (stop_pixel (hot256 ! 15))"
    using S [rule_format, OF k(2)] s15 by simp
  moreover have "result_pixel (generateHeatmapImage hot_pkg ramp4x4) 0
      = Inr (stop_pixel (hd hot256))"
    using R [rule_format, OF k(1)] r0 by blast
  moreover have "result_pixel (generateHeatmapImage hot_pkg ramp4x4) 15
      = Inr (stop_pixel (last hot256))"
    using R [rule_format, OF k(2)] r15 by blast
  ultimately show ?thesis
    using wf_slice4x4 wf_ramp4x4 hot_pkg_options valid_table_hot256 s0 s15 r0 r15 e15
    by blast
qed

section \<open>The rendering pass over the slice files\<close>

lemma heat_dir_ok:
  "heat_dir pkg folder files = (files', Inr paths) \<Longrightarrow>
     list_all2 (heated pkg) files files' \<and> paths = map (\<lambda>(n, f). path_join folder n) files"
proof (induction files arbitrary: files' paths)
  case Nil
  then show ?case by simp
next
  case (Cons nf files)
  obtain name f where nf: "nf = (name, f)" by (cases nf)
  from Cons.prems obtain f' rest' ps where
    f': "heat_file pkg f = Inr f'" and rest: "heat_dir pkg folder files = (rest', Inr ps)"
    and res: "files' = (name, f') # rest'" "paths = path_join folder name # ps"
    unfolding nf by (auto split: sum.splits prod.splits)
  from Cons.IH [OF rest] f' res show ?case
    unfolding nf by (simp add: heated_def)
qed

lemma heat_dir_fail:
  "heat_dir pkg folder files = (files', Inl e) \<Longrightarrow>
     \<exists>dn dn' f rest. files = dn @ f # rest \<and> files' = dn' @ f # rest
       \<and> list_all2 (heated pkg) dn dn' \<and> heat_file pkg (snd f) = Inl e"
proof (induction files arbitrary: files')
  case Nil
  then show ?case by simp
next
  case (Cons nf files)
  obtain name f where nf: "nf = (name, f)" by (cases nf)
  show ?case
  proof (cases "heat_file pkg f")
    case (Inl e')
    then have "files' = (name, f) # files" "e' = e"
      using Cons.prems unfolding nf by simp_all
    then have "nf # files = [] @ nf # files \<and> files' = [] @ nf # files
        \<and> list_all2 (heated pkg) [] [] \<and> heat_file pkg (snd nf) = Inl e"
      using Inl nf by simp
    then show ?thesis by blast
  next
    case (Inr f')
    with Cons.prems obtain rest' where
      rest: "heat_dir pkg folder files = (rest', Inl e)" and res: "files' = (name, f') # rest'"
      unfolding nf by (auto split: sum.splits prod.splits)
    from Cons.IH [OF rest] obtain dn dn' g rest where
      *: "files = dn @ g # rest" "rest' = dn' @ g # rest"
        "list_all2 (heated pkg) dn dn'" "heat_file pkg (snd g) = Inl e"
      by blast
    have "nf # files = (nf # dn) @ g # rest \<and> files' = ((name, f') # dn') @ g # rest
        \<and> list_all2 (heated pkg) (nf # dn) ((name, f') # dn') \<and> heat_file pkg (snd g) = Inl e"
      using * res Inr nf by (simp add: heated_def)
    then show ?thesis by blast
  qed
qed

lemma heat_views_keep:
  "heat_views pkg outputDir vs fs = (fs', r) \<Longrightarrow> u \<notin> set vs \<Longrightarrow> fs' u = fs u"
proof (induction vs arbitrary: fs fs' r)
  case Nil
  then show ?case by simp
next
  case (Cons view vs)
  show ?case
  proof (cases "fs view")
    case None
    then show ?thesis using Cons.prems by simp
  next
    case (Some files)
    obtain files' d where hd: "heat_dir pkg (path_join outputDir view) files = (files', d)"
      by (cases "heat_dir pkg (path_join outputDir view) files")
    show ?thesis
    proof (cases d)
      case (Inl e)
      then show ?thesis using Cons.prems Some hd by auto
    next
      case (Inr paths)
      obtain fs2 r2 where hv: "heat_views pkg outputDir vs (fs(view \<mapsto> files')) = (fs2, r2)"
        by (cases "heat_views pkg outputDir vs (fs(view \<mapsto> files'))")
      have "fs' = fs2" using Cons.prems(1) Some hd Inr hv by (simp split: sum.splits)
      moreover have "fs2 u = (fs(view \<mapsto> files')) u"
        using Cons.IH [OF hv] Cons.prems(2) by simp
      ultimately show ?thesis using Cons.prems(2) by simp
    qed
  qed
qed

lemma fully_heated_step:
  assumes "fully_heated pkg (fs(view \<mapsto> files')) fs2 u" "u \<noteq> view"
  shows "fully_heated pkg fs fs2 u"
  using assms by (simp add: fully_heated_def)

lemma stopped_in_step:
  assumes "stopped_in pkg (fs(view \<mapsto> files')) fs2 u e" "u \<noteq> view"
  shows "stopped_in pkg fs fs2 u e"
  using assms by (simp add: stopped_in_def)

lemma heat_views_here:
  assumes "fs view = Some files" "heat_dir pkg (path_join outputDir view) files = (files', Inr paths)"
    and "heat_views pkg outputDir vs (fs(view \<mapsto> files')) = (fs2, r2)" "view \<notin> set vs"
  shows "fully_heated pkg fs fs2 view"
proof -
  have "fs2 view = Some files'"
    using heat_views_keep [OF assms(3,4)] by simp
  then show ?thesis
    using assms(1) heat_dir_ok [OF assms(2)] by (simp add: fully_heated_def)
qed

lemma heat_views_ok:
  "heat_views pkg outputDir vs fs = (fs', Inr result) \<Longrightarrow> distinct vs \<Longrightarrow>
     map fst result = vs \<and> (\<forall>u \<in> set vs. fully_heated pkg fs fs' u)"
proof (induction vs arbitrary: fs fs' result)
  case Nil
  then show ?case by auto
next
  case (Cons view vs)
  from Cons.prems(1) obtain files files' paths result' where
    fs: "fs view = Some files"
    and hd: "heat_dir pkg (path_join outputDir view) files = (files', Inr paths)"
    and hv: "heat_views pkg outputDir vs (fs(view \<mapsto> files')) = (fs', Inr result')"
    and res: "result = (view, paths) # result'"
    by (auto split: option.splits sum.splits prod.splits)
  have dist: "distinct vs" "view \<notin> set vs" using Cons.prems(2) by simp_all
  from Cons.IH [OF hv dist(1)] have
    IH: "map fst result' = vs" "\<forall>u \<in> set vs. fully_heated pkg (fs(view \<mapsto> files')) fs' u"
    by blast+
  have "fully_heated pkg fs fs' u" if "u \<in> set vs" for u
    using IH(2) that dist(2) by (intro fully_heated_step [of pkg fs view files']) auto
  moreover have "fully_heated pkg fs fs' view"
    by (rule heat_views_here [OF fs hd hv dist(2)])
  ultimately show ?case using IH(1) res by simp
qed

lemma heat_views_fail:
  "heat_views pkg outputDir vs fs = (fs', Inl e) \<Longrightarrow> distinct vs \<Longrightarrow>
     \<exists>vs1 v vs2. vs = vs1 @ v # vs2 \<and> (\<forall>u \<in> set vs1. fully_heated pkg fs fs' u)
       \<and> stopped_in pkg fs fs' v e \<and> (\<forall>u \<in> set vs2. fs' u = fs u)"
proof (induction vs arbitrary: fs fs')
  case Nil
  then show ?case by simp
next
  case (Cons view vs)
  have dist: "distinct vs" "view \<notin> set vs" using Cons.prems(2) by simp_all
  have later: "\<forall>u \<in> set vs. fs' u = fs u" if "fs' = fs(view \<mapsto> x)" for x
    using that dist(2) by auto
  show ?case
  proof (cases "fs view")
    case None
    then have eq: "fs' = fs" "e = IOError" using Cons.prems(1) by simp_all
    have "view # vs = [] @ view # vs \<and> (\<forall>u \<in> set []. fully_heated pkg fs fs' u)
        \<and> stopped_in pkg fs fs' view e \<and> (\<forall>u \<in> set vs. fs' u = fs u)"
      using None eq by (simp add: stopped_in_def)
    then show ?thesis by blast
  next
    case (Some files)
    obtain files' d where hd: "heat_dir pkg (path_join outputDir view) files = (files', d)"
      by (cases "heat_dir pkg (path_join outputDir view) files")
    show ?thesis
    proof (cases d)
      case (Inl e')
      then have eq: "fs' = fs(view \<mapsto> files')" "e' = e"
        using Cons.prems(1) Some hd by simp_all
      from heat_dir_fail [OF hd [unfolded Inl eq(2)]] have "stopped_in pkg fs fs' view e"
        unfolding stopped_in_def eq(1) using Some by auto
      then have "view # vs = [] @ view # vs \<and> (\<forall>u \<in> set []. fully_heated pkg fs fs' u)
          \<and> stopped_in pkg fs fs' view e \<and> (\<forall>u \<in> set vs. fs' u = fs u)"
        using later [OF eq(1)] by simp
      then show ?thesis by blast
    next
      case (Inr paths)
      from Cons.prems(1) Some hd Inr have
        hv: "heat_views pkg outputDir vs (fs(view \<mapsto> files')) = (fs', Inl e)"
        by (auto split: sum.splits prod.splits)
      from Cons.IH [OF hv dist(1)] obtain vs1 v vs2 where
        *: "vs = vs1 @ v # vs2" "\<forall>u \<in> set vs1. fully_heated pkg (fs(view \<mapsto> files')) fs' u"
          "stopped_in pkg (fs(view \<mapsto> files')) fs' v e"
          "\<forall>u \<in> set vs2. fs' u = (fs(view \<mapsto> files')) u"
        by blast
      have nv: "v \<noteq> view" "\<forall>u \<in> set vs1. u \<noteq> view" "\<forall>u \<in> set vs2. u \<noteq> view"
        using dist(2) *(1) by auto
      have 1: "\<forall>u \<in> set (view # vs1). fully_heated pkg fs fs' u"
        using *(2) nv(2) heat_views_here [OF Some hd [unfolded Inr] hv dist(2)]
        by (auto intro: fully_heated_step)
      have 2: "stopped_in pkg fs fs' v e"
        using *(3) nv(1) by (rule stopped_in_step)
      have 3: "\<forall>u \<in> set vs2. fs' u = fs u"
        using *(4) nv(3) by simp
      have "view # vs = (view # vs1) @ v # vs2" using *(1) by simp
      with 1 2 3 show ?thesis by blast
    qed
  qed
qed

lemma distinct_views: "distinct views"
  by (simp add: views_def)

lemma heat_file_black:
  "heat_file hot_pkg (File (Img (px1 0 g b a)) True) = Inr (File (Img (px1 0 0 0 255)) True)"
  by (simp add: heat_file_def Jimp_read_def black_pixel writeAsync_def)

lemma heat_file_garbage: "heat_file pkg (File Garbage w) = Inl DecodeError"
  by (simp add: heat_file_def Jimp_read_def)

lemma broken_axial_run:
  "heatmap_pass hot_pkg ''out'' broken_axial = (broken_axial_after, Inl DecodeError)"
proof -
  have "broken_axial(''axial'' \<mapsto> [(''000.png'', File (Img (px1 0 0 0 255)) True),
      (''001.png'', File Garbage True)]) = broken_axial_after"
    by (rule ext) (simp add: broken_axial_def broken_axial_after_def)
  then show ?thesis
    by (simp add: heatmap_pass_def views_def broken_axial_def heat_file_black heat_file_garbage)
qed

text \<open>
  Claim C8 says that when the rendering pass of \<open>processDoseDataFile\<close> fails on a slice,
  no slice written before has been modified. The pass overwrites each file as it goes: with
  a second axial file that is not an image the call fails, and the first axial file has
  been overwritten.
\<close>

theorem failed_pass_counterexample:
  "heatmap_pass hot_pkg ''out'' broken_axial = (broken_axial_after, Inl DecodeError)
   \<and> broken_axial_after ''axial'' \<noteq> broken_axial ''axial''"
proof
  show "heatmap_pass hot_pkg ''out'' broken_axial = (broken_axial_after, Inl DecodeError)"
    by (rule broken_axial_run)
  show "broken_axial_after ''axial'' \<noteq> broken_axial ''axial''"
    by (simp add: broken_axial_def broken_axial_after_def px1_def)
qed

text \<open>
  Claim C8, amended. When the rendering pass fails, the error is the one of the failing
  step, and the directory is left as the pass reached it: the views before the failing
  one are overwritten file by file with their heat maps, in the failing view the files
  before the failing one are overwritten and the failing file and the later ones are
  unchanged (or the folder is missing), and the views after it are unchanged. Nothing is
  rolled back.
\<close>

theorem failed_pass_keeps_finished_slices:
  assumes "heatmap_pass pkg outputDir fs = (fs', Inl e)"
  shows "\<exists>vs1 v vs2. views = vs1 @ v # vs2
    \<and> list_all (fully_heated pkg fs fs') vs1
    \<and> stopped_in pkg fs fs' v e
    \<and> list_all (\<lambda>u. fs' u = fs u) vs2"
  using heat_views_fail [OF assms [unfolded heatmap_pass_def] distinct_views]
  by (simp add: list_all_iff)

theorem failed_pass_keeps_finished_slices_witness:
  "heatmap_pass hot_pkg ''out'' broken_axial = (broken_axial_after, Inl DecodeError)
   \<and> (\<exists>vs1 v vs2. views = vs1 @ v # vs2
        \<and> list_all (fully_heated hot_pkg broken_axial broken_axial_after) vs1
        \<and> stopped_in hot_pkg broken_axial broken_axial_after v DecodeError
        \<and> list_all (\<lambda>u. broken_axial_after u = broken_axial u) vs2)"
  using failed_pass_keeps_finished_slices [OF broken_axial_run] broken_axial_run
  by blast

subsection \<open>A volume without slices\<close>

lemma heatmap_pass_empty:
  assumes "fs ''axial'' = Some []" "fs ''coronal'' = Some []" "fs ''sagittal'' = Some []"
  shows "heatmap_pass pkg outputDir fs
    = (fs, Inr [(''axial'', []), (''coronal'', []), (''sagittal'', [])])"
proof -
  have "fs(''axial'' \<mapsto> []) = fs" "fs(''coronal'' \<mapsto> []) = fs" "fs(''sagittal'' \<mapsto> []) = fs"
    using assms by (simp_all add: fun_upd_idem)
  then show ?thesis
    using assms by (simp add: heatmap_pass_def views_def)
qed

text \<open>
  Claim C6 says that a volume without slices makes no part of the pipeline fail. The
  handlers of \<open>/generate-wholebody-dose-map\<close> and \<open>/process-npy\<close> throw when the
  three views hold no slice in total.
\<close>

theorem empty_volume_counterexample:
  "wholebody_slices empty_volume = Inl NoDoseSlices
   \<and> process_npy_images hot_pkg no_script no_script ''out'' empty_volume
       = (empty_volume, Inl NoDoseImages)"
proof
  show "wholebody_slices empty_volume = Inl NoDoseSlices"
    by (simp add: wholebody_slices_def dose_view_def empty_volume_def)
  have "heatmap_pass hot_pkg ''out'' empty_volume
      = (empty_volume, Inr [(''axial'', []), (''coronal'', []), (''sagittal'', [])])"
    by (rule heatmap_pass_empty) (simp_all add: empty_volume_def)
  then show "process_npy_images hot_pkg no_script no_script ''out'' empty_volume
      = (empty_volume, Inl NoDoseImages)"
    by (simp add: process_npy_images_def processDoseDataFile_def no_script_def view_paths_def)
qed

text \<open>
  Claim C6, amended. For a volume without slices (three empty view folders)
  \<open>processDoseDataFile\<close> and the listing of \<open>/upload-nii\<close> return empty slice
  sequences (and slice counts 0) successfully; the handlers of
  \<open>/generate-wholebody-dose-map\<close> and \<open>/process-npy\<close> reject the result with zero
  slices by an error of their own.
\<close>

theorem empty_volume_listings:
  assumes "fs ''axial'' = Some []" and "fs ''coronal'' = Some []" and "fs ''sagittal'' = Some []"
    and "resample fs0 = (fs1, None)" and "preview fs1 = (fs, None)"
  shows "processDoseDataFile pkg resample preview outputDir fs0
      = (fs, Inr [(''axial'', []), (''coronal'', []), (''sagittal'', [])])
    \<and> upload_listing uploadFolder fs
      = Inr \<lparr>axial = [], coronal = [], sagittal = [], maxSlices = (0, 0, 0)\<rparr>
    \<and> wholebody_slices fs = Inl NoDoseSlices
    \<and> process_npy_images pkg resample preview outputDir fs0 = (fs, Inl NoDoseImages)"
proof -
  have pass: "processDoseDataFile pkg resample preview outputDir fs0
      = (fs, Inr [(''axial'', []), (''coronal'', []), (''sagittal'', [])])"
    using heatmap_pass_empty [OF assms(1,2,3)] assms(4,5)
    by (simp add: processDoseDataFile_def)
  have "upload_listing uploadFolder fs
      = Inr \<lparr>axial = [], coronal = [], sagittal = [], maxSlices = (0, 0, 0)\<rparr>"
    using assms(1,2,3) by (simp add: upload_listing_def readdir_def upload_view_def js_sort_def)
  moreover have "wholebody_slices fs = Inl NoDoseSlices"
    using assms(1,2,3) by (simp add: wholebody_slices_def dose_view_def)
  moreover have "process_npy_images pkg resample preview outputDir fs0 = (fs, Inl NoDoseImages)"
    by (simp add: process_npy_images_def pass view_paths_def)
  ultimately show ?thesis using pass by simp
qed

theorem empty_volume_listings_witness:
  "empty_volume ''axial'' = Some [] \<and> empty_volume ''coronal'' = Some []
   \<and> empty_volume ''sagittal'' = Some []
   \<and> no_script empty_volume = (empty_volume, None)
   \<and> processDoseDataFile hot_pkg no_script no_script ''out'' empty_volume
      = (empty_volume, Inr [(''axial'', []), (''coronal'', []), (''sagittal'', [])])
   \<and> upload_listing ''nii_1'' empty_volume
      = Inr \<lparr>axial = [], coronal = [], sagittal = [], maxSlices = (0, 0, 0)\<rparr>
   \<and> wholebody_slices empty_volume = Inl NoDoseSlices
   \<and> process_npy_images hot_pkg no_script no_script ''out'' empty_volume
      = (empty_volume, Inl NoDoseImages)"
proof -
  have 1: "empty_volume ''axial'' = Some []" and 2: "empty_volume ''coronal'' = Some []"
    and 3: "empty_volume ''sagittal'' = Some []"
    by (simp_all add: empty_volume_def)
  have 4: "no_script empty_volume = (empty_volume, None)" by (simp add: no_script_def)
  show ?thesis
    using empty_volume_listings [where fs = empty_volume and resample = no_script
        and preview = no_script and ?fs0.0 = empty_volume and ?fs1.0 = empty_volume
        and pkg = hot_pkg and outputDir = "''out''" and uploadFolder = "''nii_1''",
        OF 1 2 3 4 4] 1 2 3 4
    by blast
qed

section \<open>Slice order in the listings\<close>










text \<open>
  The width has to hold every index: padded to three digits, slice 1000 sorts before
  slice 999.
\<close>

lemma slice_filename_beyond_width: "slice_filename 3 ''png'' 1000 < slice_filename 3 ''png'' 999"
  by code_simp






end
